theory Spec2Isabelle
  imports Main
begin

section \<open>The iterator protocol\<close>

text \<open>
  One call of \<^verbatim>\<open>next()\<close> on a JavaScript iterator returns a result object.  The
  TypeScript type \<^verbatim>\<open>IteratorResult<T>\<close> allows the \<^verbatim>\<open>done\<close> field of a yielding
  result to be left out, and \<^verbatim>\<open>zip\<close> reads it with \<^verbatim>\<open>done ?? true\<close>, so the three
  shapes are kept apart: \<^verbatim>\<open>{done: false, value}\<close>, \<^verbatim>\<open>{value}\<close> and \<^verbatim>\<open>{done: true}\<close>.
\<close>

datatype 'a IteratorResult = Yielded 'a | Unflagged 'a | Finished

text \<open>What \<^verbatim>\<open>for (const item of ...)\<close> and \<^verbatim>\<open>yield*\<close> read from a result: the loop
  ends when \<^verbatim>\<open>done\<close> is truthy, a missing flag counts as not done.\<close>

fun item_of :: "'a IteratorResult \<Rightarrow> 'a option" where
  "item_of (Yielded v) = Some v"
| "item_of (Unflagged v) = Some v"
| "item_of Finished = None"

text \<open>
  A call of \<^verbatim>\<open>next()\<close> returns a result (\<open>Inr\<close>), throws (\<open>Inl\<close>), or does not come
  back at all (\<open>None\<close>); it also changes the state of the object it was called on.
  An \<^verbatim>\<open>Iter\<close> owns one private field \<^verbatim>\<open>#inner\<close>: an object with a state and a
  \<^verbatim>\<open>next\<close> method.
\<close>

type_synonym ('e, 'a) pulled = "'e + 'a IteratorResult"

record ('s, 'e, 'a) Iter =
  inner :: 's
  inner_next :: "'s \<Rightarrow> (('e, 'a) pulled \<times> 's) option"

text \<open>\<^verbatim>\<open>next(): IteratorResult<T> { return this.#inner.next(); }\<close>\<close>

definition Iter_next ::
  "('s, 'e, 'a) Iter \<Rightarrow> (('e, 'a) pulled \<times> ('s, 'e, 'a) Iter) option" where
  "Iter_next this =
     (case inner_next this (inner this) of
        None \<Rightarrow> None
      | Some (r, s) \<Rightarrow> Some (r, this\<lparr>inner := s\<rparr>))"

text \<open>\<^verbatim>\<open>[Symbol.iterator]() { return this; }\<close>\<close>

definition Symbol_iterator :: "('s, 'e, 'a) Iter \<Rightarrow> ('s, 'e, 'a) Iter" where
  "Symbol_iterator this = this"

subsection \<open>Raw sources\<close>

text \<open>
  A raw iterator handed to \<^verbatim>\<open>new Iter(inner)\<close> is any object with a \<^verbatim>\<open>next\<close> method.
  One that depends on nothing but how often it was asked is the table of its answers;
  its state is the number of calls made so far.  Nothing forces such a table to stay
  exhausted once it has answered \<^verbatim>\<open>{done: true}\<close>.
\<close>

definition source :: "(nat \<Rightarrow> ('e, 'a) pulled) \<Rightarrow> (nat, 'e, 'a) Iter" where
  "source answers = \<lparr>inner = 0, inner_next = (\<lambda>n. Some (answers n, Suc n))\<rparr>"

text \<open>The generator \<^verbatim>\<open>sequentialIntegers\<close> of the test files, for any finite list of
  elements, and a generator that never ends.\<close>

definition of_list :: "'a list \<Rightarrow> (nat, 'e, 'a) Iter" where
  "of_list xs = source (\<lambda>n. if n < length xs then Inr (Yielded (xs ! n)) else Inr Finished)"

definition endless :: "(nat \<Rightarrow> 'a) \<Rightarrow> (nat, 'e, 'a) Iter" where
  "endless f = source (\<lambda>n. Inr (Yielded (f n)))"

subsection \<open>Generator objects\<close>

text \<open>
  Every combinator returns \<^verbatim>\<open>new Iter(function* (iter) { ... }(this))\<close>.  Calling a
  generator function runs none of its body: it returns a generator object that is
  suspended at the start and holds the arguments.  A call of \<^verbatim>\<open>next()\<close> runs the body
  up to the next \<^verbatim>\<open>yield\<close> (the object is then suspended there, with its local
  variables), or to its end or a \<^verbatim>\<open>throw\<close> (the object is then completed, and every
  later \<^verbatim>\<open>next()\<close> returns \<^verbatim>\<open>{done: true}\<close>).  \<open>'p\<close> is what the body captured,
  \<open>'l\<close> its local variables.
\<close>

datatype ('l, 'p) generator = SuspendedStart 'p | SuspendedYield 'l 'p | Completed 'p

fun captured :: "('l, 'p) generator \<Rightarrow> 'p" where
  "captured (SuspendedStart p) = p"
| "captured (SuspendedYield l p) = p"
| "captured (Completed p) = p"

definition generator_next ::
  "('p \<Rightarrow> (('e, 'b) pulled \<times> ('l, 'p) generator) option) \<Rightarrow>
   ('l \<Rightarrow> 'p \<Rightarrow> (('e, 'b) pulled \<times> ('l, 'p) generator) option) \<Rightarrow>
   ('l, 'p) generator \<Rightarrow> (('e, 'b) pulled \<times> ('l, 'p) generator) option" where
  "generator_next start resume g =
     (case g of
        SuspendedStart p \<Rightarrow> start p
      | SuspendedYield l p \<Rightarrow> resume l p
      | Completed p \<Rightarrow> Some (Inr Finished, Completed p))"

text \<open>
  The loop \<^verbatim>\<open>for (const item of iter) { ... }\<close> inside a generator body, for the bodies
  of this file: each one ends an iteration by yielding as its last statement, by
  \<^verbatim>\<open>continue\<close>, by \<^verbatim>\<open>break\<close> or by throwing.  Neither \<^verbatim>\<open>Iter\<close> nor \<^verbatim>\<open>AsyncIter\<close> has
  a \<^verbatim>\<open>return\<close> method, so leaving the loop early does nothing to \<^verbatim>\<open>iter\<close>.  A body
  that never returns is \<open>None\<close>; no body of sync.ts is one, a body of async.ts that awaits
  a promise that never settles is (\<open>settled\<close> below).
\<close>

datatype ('l, 'e, 'b) completion = YieldThen 'b 'l | Continue 'l | Break | Throw 'e

partial_function (option) for_of ::
  "('l \<Rightarrow> 'a \<Rightarrow> ('l, 'e, 'b) completion option) \<Rightarrow> 'l \<Rightarrow> ('s, 'e, 'a) Iter \<Rightarrow>
   (('e, 'b) pulled \<times> ('l, ('s, 'e, 'a) Iter) generator) option" where
  "for_of body l iter =
     (case Iter_next iter of
        None \<Rightarrow> None
      | Some (Inl e, iter') \<Rightarrow> Some (Inl e, Completed iter')
      | Some (Inr r, iter') \<Rightarrow>
          (case item_of r of
             None \<Rightarrow> Some (Inr Finished, Completed iter')
           | Some item \<Rightarrow>
               (case body l item of
                  None \<Rightarrow> None
                | Some (YieldThen v l') \<Rightarrow> Some (Inr (Yielded v), SuspendedYield l' iter')
                | Some (Continue l') \<Rightarrow> for_of body l' iter'
                | Some Break \<Rightarrow> Some (Inr Finished, Completed iter')
                | Some (Throw e) \<Rightarrow> Some (Inl e, Completed iter'))))"

text \<open>A generator whose body is one such loop after the initialisation of its locals.\<close>

definition loop_generator ::
  "('l \<Rightarrow> 'a \<Rightarrow> ('l, 'e, 'b) completion option) \<Rightarrow> 'l \<Rightarrow> ('s, 'e, 'a) Iter \<Rightarrow>
   (('l, ('s, 'e, 'a) Iter) generator, 'e, 'b) Iter" where
  "loop_generator body l0 iter =
     \<lparr>inner = SuspendedStart iter,
      inner_next = generator_next (for_of body l0) (for_of body)\<rparr>"

section \<open>The synchronous wrapper (sync.ts)\<close>

text \<open>\<^verbatim>\<open>repeatWith\<close>: \<^verbatim>\<open>let index = 0; while (true) { yield func(index++); }\<close>\<close>

definition repeatWith_loop ::
  "(nat \<Rightarrow> 'e + 'a) \<Rightarrow> nat \<Rightarrow> unit \<Rightarrow> (('e, 'a) pulled \<times> (nat, unit) generator) option" where
  "repeatWith_loop func index u =
     (case func index of
        Inl e \<Rightarrow> Some (Inl e, Completed u)
      | Inr v \<Rightarrow> Some (Inr (Yielded v), SuspendedYield (index + 1) u))"

definition repeatWith :: "(nat \<Rightarrow> 'e + 'a) \<Rightarrow> ((nat, unit) generator, 'e, 'a) Iter" where
  "repeatWith func =
     \<lparr>inner = SuspendedStart (),
      inner_next = generator_next (repeatWith_loop func 0) (repeatWith_loop func)\<rparr>"

text \<open>\<^verbatim>\<open>filter\<close>: \<^verbatim>\<open>if (predicate(item)) yield item;\<close>\<close>

definition filter_body :: "('a \<Rightarrow> 'e + bool) \<Rightarrow> unit \<Rightarrow> 'a \<Rightarrow> (unit, 'e, 'a) completion option" where
  "filter_body predicate l item =
     Some (case predicate item of
             Inl e \<Rightarrow> Throw e
           | Inr b \<Rightarrow> if b then YieldThen item l else Continue l)"

definition Iter_filter ::
  "('a \<Rightarrow> 'e + bool) \<Rightarrow> ('s, 'e, 'a) Iter \<Rightarrow> ((unit, ('s, 'e, 'a) Iter) generator, 'e, 'a) Iter" where
  "Iter_filter predicate this = loop_generator (filter_body predicate) () this"

text \<open>\<^verbatim>\<open>filterMap\<close>: \<^verbatim>\<open>const mapped = func(item); if (mapped !== undefined) yield mapped;\<close>
  The result type \<^verbatim>\<open>Output | undefined\<close> is \<open>'b option\<close>, \<^verbatim>\<open>undefined\<close> being \<open>None\<close>.\<close>

definition filterMap_body ::
  "('a \<Rightarrow> 'e + 'b option) \<Rightarrow> unit \<Rightarrow> 'a \<Rightarrow> (unit, 'e, 'b) completion option" where
  "filterMap_body func l item =
     Some (case func item of
             Inl e \<Rightarrow> Throw e
           | Inr mapped \<Rightarrow> (case mapped of None \<Rightarrow> Continue l | Some v \<Rightarrow> YieldThen v l))"

definition Iter_filterMap ::
  "('a \<Rightarrow> 'e + 'b option) \<Rightarrow> ('s, 'e, 'a) Iter \<Rightarrow>
   ((unit, ('s, 'e, 'a) Iter) generator, 'e, 'b) Iter" where
  "Iter_filterMap func this = loop_generator (filterMap_body func) () this"

text \<open>\<^verbatim>\<open>map\<close>: \<^verbatim>\<open>yield func(item);\<close>\<close>

definition map_body :: "('a \<Rightarrow> 'e + 'b) \<Rightarrow> unit \<Rightarrow> 'a \<Rightarrow> (unit, 'e, 'b) completion option" where
  "map_body func l item =
     Some (case func item of Inl e \<Rightarrow> Throw e | Inr v \<Rightarrow> YieldThen v l)"

definition Iter_map ::
  "('a \<Rightarrow> 'e + 'b) \<Rightarrow> ('s, 'e, 'a) Iter \<Rightarrow> ((unit, ('s, 'e, 'a) Iter) generator, 'e, 'b) Iter" where
  "Iter_map func this = loop_generator (map_body func) () this"

text \<open>\<^verbatim>\<open>enumerate\<close>: \<^verbatim>\<open>let index = 0; ... yield [index++, item];\<close>\<close>

definition enumerate_body :: "nat \<Rightarrow> 'a \<Rightarrow> (nat, 'e, nat \<times> 'a) completion option" where
  "enumerate_body index item = Some (YieldThen (index, item) (index + 1))"

definition Iter_enumerate ::
  "('s, 'e, 'a) Iter \<Rightarrow> ((nat, ('s, 'e, 'a) Iter) generator, 'e, nat \<times> 'a) Iter" where
  "Iter_enumerate this = loop_generator enumerate_body 0 this"

text \<open>\<^verbatim>\<open>take\<close>: \<^verbatim>\<open>let count = 0; ... if (++count > limit) break; yield item;\<close>
  The limit is a number the caller chooses; it may be negative.  Counters are integers
  here; the code's are doubles, which count exactly far beyond any length that can be
  pulled.\<close>

definition take_body :: "int \<Rightarrow> int \<Rightarrow> 'a \<Rightarrow> (int, 'e, 'a) completion option" where
  "take_body limit count item =
     Some (let count = count + 1 in if count > limit then Break else YieldThen item count)"

definition Iter_take ::
  "int \<Rightarrow> ('s, 'e, 'a) Iter \<Rightarrow> ((int, ('s, 'e, 'a) Iter) generator, 'e, 'a) Iter" where
  "Iter_take limit this = loop_generator (take_body limit) 0 this"

text \<open>\<^verbatim>\<open>skip\<close>: \<^verbatim>\<open>let count = 0; ... if (++count <= items) continue; yield item;\<close>\<close>

definition skip_body :: "int \<Rightarrow> int \<Rightarrow> 'a \<Rightarrow> (int, 'e, 'a) completion option" where
  "skip_body items count item =
     Some (let count = count + 1 in if count \<le> items then Continue count else YieldThen item count)"

definition Iter_skip ::
  "int \<Rightarrow> ('s, 'e, 'a) Iter \<Rightarrow> ((int, ('s, 'e, 'a) Iter) generator, 'e, 'a) Iter" where
  "Iter_skip items this = loop_generator (skip_body items) 0 this"

text \<open>
  \<^verbatim>\<open>chain\<close>: \<^verbatim>\<open>yield* iter; for (const nextIterator of next) { yield* nextIterator; }\<close>
  In a synchronous generator \<^verbatim>\<open>yield*\<close> hands each result object of the delegate to the
  caller as it is, and goes on with the statement after it when the delegate is done.
  The body captures the receiver and the array \<^verbatim>\<open>next\<close>; its position is \<open>None\<close> inside
  \<^verbatim>\<open>yield* iter\<close> and \<open>Some i\<close> inside the \<^verbatim>\<open>yield*\<close> of \<^verbatim>\<open>next[i]\<close>.  The iterables of
  \<^verbatim>\<open>next\<close> are wrappers, for which \<^verbatim>\<open>[Symbol.iterator]()\<close> is the object itself.
\<close>

fun chain_next ::
  "('s, 'e, 'a) Iter \<Rightarrow> ('t, 'e, 'a) Iter list \<Rightarrow> ('t, 'e, 'a) Iter list \<Rightarrow>
   (('e, 'a) pulled \<times> (nat option, ('s, 'e, 'a) Iter \<times> ('t, 'e, 'a) Iter list) generator) option" where
  "chain_next iter before [] = Some (Inr Finished, Completed (iter, before))"
| "chain_next iter before (nextIterator # after) =
     (case Iter_next (Symbol_iterator nextIterator) of
        None \<Rightarrow> None
      | Some (Inl e, n') \<Rightarrow> Some (Inl e, Completed (iter, before @ n' # after))
      | Some (Inr r, n') \<Rightarrow>
          (case item_of r of
             None \<Rightarrow> chain_next iter (before @ [n']) after
           | Some v \<Rightarrow> Some (Inr r, SuspendedYield (Some (length before)) (iter, before @ n' # after))))"

definition chain_iter ::
  "('s, 'e, 'a) Iter \<times> ('t, 'e, 'a) Iter list \<Rightarrow>
   (('e, 'a) pulled \<times> (nat option, ('s, 'e, 'a) Iter \<times> ('t, 'e, 'a) Iter list) generator) option" where
  "chain_iter p =
     (case p of (iter, next) \<Rightarrow>
        (case Iter_next (Symbol_iterator iter) of
           None \<Rightarrow> None
         | Some (Inl e, iter') \<Rightarrow> Some (Inl e, Completed (iter', next))
         | Some (Inr r, iter') \<Rightarrow>
             (case item_of r of
                None \<Rightarrow> chain_next iter' [] next
              | Some v \<Rightarrow> Some (Inr r, SuspendedYield None (iter', next)))))"

definition chain_resume ::
  "nat option \<Rightarrow> ('s, 'e, 'a) Iter \<times> ('t, 'e, 'a) Iter list \<Rightarrow>
   (('e, 'a) pulled \<times> (nat option, ('s, 'e, 'a) Iter \<times> ('t, 'e, 'a) Iter list) generator) option" where
  "chain_resume pos p =
     (case pos of
        None \<Rightarrow> chain_iter p
      | Some i \<Rightarrow> chain_next (fst p) (take i (snd p)) (drop i (snd p)))"

definition Iter_chain ::
  "('t, 'e, 'a) Iter list \<Rightarrow> ('s, 'e, 'a) Iter \<Rightarrow>
   ((nat option, ('s, 'e, 'a) Iter \<times> ('t, 'e, 'a) Iter list) generator, 'e, 'a) Iter" where
  "Iter_chain next this =
     \<lparr>inner = SuspendedStart (this, next),
      inner_next = generator_next chain_iter chain_resume\<rparr>"

text \<open>
  \<^verbatim>\<open>zip\<close>: \<^verbatim>\<open>const rightIter = right[Symbol.iterator]();\<close> runs when \<^verbatim>\<open>zip\<close> is called,
  the rest is the generator body:
  \<^verbatim>\<open>let done = false;
  while (!done) {
    const [leftResult, rightResult] = [iter.next(), rightIter.next()];
    done ||= leftResult.done ?? true;
    done ||= rightResult.done ?? true;
    if (done) break;
    yield [leftResult.value, rightResult.value];
  }\<close>
  The array literal calls \<^verbatim>\<open>iter.next()\<close> first; when that throws, \<^verbatim>\<open>rightIter.next()\<close>
  is not called.
\<close>

fun done_or_true :: "'a IteratorResult \<Rightarrow> bool" where
  "done_or_true (Yielded v) = False"
| "done_or_true (Unflagged v) = True"
| "done_or_true Finished = True"

fun zip_pair :: "'a IteratorResult \<Rightarrow> 'a IteratorResult \<Rightarrow> ('a \<times> 'a) option" where
  "zip_pair (Yielded l) (Yielded r) = Some (l, r)"
| "zip_pair leftResult rightResult = None"

definition zip_loop ::
  "bool \<Rightarrow> ('s, 'e, 'a) Iter \<times> ('t, 'e, 'a) Iter \<Rightarrow>
   (('e, 'a \<times> 'a) pulled \<times> (bool, ('s, 'e, 'a) Iter \<times> ('t, 'e, 'a) Iter) generator) option" where
  "zip_loop done p =
     (case p of (iter, rightIter) \<Rightarrow>
        if done then Some (Inr Finished, Completed (iter, rightIter))
        else
          (case Iter_next iter of
             None \<Rightarrow> None
           | Some (Inl e, iter') \<Rightarrow> Some (Inl e, Completed (iter', rightIter))
           | Some (Inr leftResult, iter') \<Rightarrow>
               (case Iter_next rightIter of
                  None \<Rightarrow> None
                | Some (Inl e, right') \<Rightarrow> Some (Inl e, Completed (iter', right'))
                | Some (Inr rightResult, right') \<Rightarrow>
                    (let done = (done \<or> done_or_true leftResult);
                         done = (done \<or> done_or_true rightResult)
                     in if done then Some (Inr Finished, Completed (iter', right'))
                        else
                          (case zip_pair leftResult rightResult of
                             None \<Rightarrow> Some (Inr Finished, Completed (iter', right'))
                           | Some pair \<Rightarrow>
                               Some (Inr (Yielded pair), SuspendedYield done (iter', right')))))))"

definition Iter_zip ::
  "('t, 'e, 'a) Iter \<Rightarrow> ('s, 'e, 'a) Iter \<Rightarrow>
   ((bool, ('s, 'e, 'a) Iter \<times> ('t, 'e, 'a) Iter) generator, 'e, 'a \<times> 'a) Iter" where
  "Iter_zip right this =
     (let rightIter = Symbol_iterator right
      in \<lparr>inner = SuspendedStart (this, rightIter),
          inner_next = generator_next (zip_loop False) zip_loop\<rparr>)"

text \<open>
  \<^verbatim>\<open>flat\<close>: \<^verbatim>\<open>for (const item of iter) { yield* item; }\<close> where each item is an array.
  The local state is what is left of the array being delegated to.
\<close>

partial_function (option) flat_loop ::
  "'a list \<Rightarrow> ('s, 'e, 'a list) Iter \<Rightarrow>
   (('e, 'a) pulled \<times> ('a list, ('s, 'e, 'a list) Iter) generator) option" where
  "flat_loop rest iter =
     (case rest of
        v # rest' \<Rightarrow> Some (Inr (Yielded v), SuspendedYield rest' iter)
      | [] \<Rightarrow>
          (case Iter_next iter of
             None \<Rightarrow> None
           | Some (Inl e, iter') \<Rightarrow> Some (Inl e, Completed iter')
           | Some (Inr r, iter') \<Rightarrow>
               (case item_of r of
                  None \<Rightarrow> Some (Inr Finished, Completed iter')
                | Some item \<Rightarrow> flat_loop item iter')))"

definition Iter_flat ::
  "('s, 'e, 'a list) Iter \<Rightarrow> (('a list, ('s, 'e, 'a list) Iter) generator, 'e, 'a) Iter" where
  "Iter_flat this =
     \<lparr>inner = SuspendedStart this,
      inner_next = generator_next (flat_loop []) flat_loop\<rparr>"

subsection \<open>Terminal operations\<close>

text \<open>
  \<^verbatim>\<open>reduce\<close>: \<^verbatim>\<open>let result = initial; for (const item of this) { result = func(result, item); }
  return result;\<close>  The loop may never end, so the result is optional; the wrapper as the
  loop left it is returned with the value.
\<close>

partial_function (option) reduce ::
  "('x \<Rightarrow> 'a \<Rightarrow> 'e + 'x) \<Rightarrow> 'x \<Rightarrow> ('s, 'e, 'a) Iter \<Rightarrow> (('e + 'x) \<times> ('s, 'e, 'a) Iter) option" where
  "reduce func result this =
     (case Iter_next this of
        None \<Rightarrow> None
      | Some (Inl e, this') \<Rightarrow> Some (Inl e, this')
      | Some (Inr r, this') \<Rightarrow>
          (case item_of r of
             None \<Rightarrow> Some (Inr result, this')
           | Some item \<Rightarrow>
               (case func result item of
                  Inl e \<Rightarrow> Some (Inl e, this')
                | Inr result' \<Rightarrow> reduce func result' this')))"

text \<open>\<^verbatim>\<open>collect\<close>: \<^verbatim>\<open>return this.reduce((prev, curr) => [...prev, curr], []);\<close>\<close>

definition collect :: "('s, 'e, 'a) Iter \<Rightarrow> (('e + 'a list) \<times> ('s, 'e, 'a) Iter) option" where
  "collect this = reduce (\<lambda>prev curr. Inr (prev @ [curr])) [] this"

text \<open>\<^verbatim>\<open>count\<close>: \<^verbatim>\<open>let count = 0; for (const _ of this) { count++; } return count;\<close>\<close>

partial_function (option) count_loop ::
  "nat \<Rightarrow> ('s, 'e, 'a) Iter \<Rightarrow> (('e + nat) \<times> ('s, 'e, 'a) Iter) option" where
  "count_loop count this =
     (case Iter_next this of
        None \<Rightarrow> None
      | Some (Inl e, this') \<Rightarrow> Some (Inl e, this')
      | Some (Inr r, this') \<Rightarrow>
          (case item_of r of
             None \<Rightarrow> Some (Inr count, this')
           | Some item \<Rightarrow> count_loop (count + 1) this'))"

definition count :: "('s, 'e, 'a) Iter \<Rightarrow> (('e + nat) \<times> ('s, 'e, 'a) Iter) option" where
  "count this = count_loop 0 this"

text \<open>
  \<^verbatim>\<open>forEach\<close>: \<^verbatim>\<open>for (const item of this) { func(item); }\<close>  The function is called for
  what it does to the world around it, of type \<open>'w\<close>; its return value is dropped.  The
  world is returned as the last completed call left it.
\<close>

partial_function (option) forEach ::
  "('a \<Rightarrow> 'w \<Rightarrow> 'e + 'w) \<Rightarrow> 'w \<Rightarrow> ('s, 'e, 'a) Iter \<Rightarrow>
   (('e + unit) \<times> 'w \<times> ('s, 'e, 'a) Iter) option" where
  "forEach func world this =
     (case Iter_next this of
        None \<Rightarrow> None
      | Some (Inl e, this') \<Rightarrow> Some (Inl e, world, this')
      | Some (Inr r, this') \<Rightarrow>
          (case item_of r of
             None \<Rightarrow> Some (Inr (), world, this')
           | Some item \<Rightarrow>
               (case func item world of
                  Inl e \<Rightarrow> Some (Inl e, world, this')
                | Inr world' \<Rightarrow> forEach func world' this')))"

section \<open>The asynchronous wrapper (async.ts)\<close>

text \<open>
  An \<^verbatim>\<open>AsyncIter\<close> has the same single field.  Its \<^verbatim>\<open>#inner.next()\<close> returns a promise of
  a result; what a caller that awaits it sees is a result (\<open>Inr\<close>), a rejection (\<open>Inl\<close>)
  or nothing, when the promise never settles (\<open>None\<close>).  The wrapper is pulled by one
  consumer that awaits each pull before the next one, so the object is the same kind of
  record as an \<^verbatim>\<open>Iter\<close>; what is done with it is defined anew below, from async.ts: the
  loop \<^verbatim>\<open>for await\<close>, the \<^verbatim>\<open>yield\<close> of an \<^verbatim>\<open>async function*\<close>, which awaits the value it is
  given, the \<^verbatim>\<open>yield*\<close> of such a generator, \<^verbatim>\<open>Promise.all\<close>, and every operator and
  terminal operation.
\<close>

type_synonym ('s, 'e, 'a) AsyncIter = "('s, 'e, 'a) Iter"

text \<open>
  A promise as an \<^verbatim>\<open>await\<close> finds it.  \<^verbatim>\<open>await v\<close> of a value \<open>v\<close> that is not a promise
  gives \<open>v\<close>, as for a promise fulfilled with \<open>v\<close>, so such a value is \<open>Fulfilled v\<close> here.
\<close>

datatype ('e, 'a) Promise = Fulfilled 'a | Rejected 'e | Pending

fun await :: "('e, 'a) Promise \<Rightarrow> ('e + 'a) option" where
  "await (Fulfilled v) = Some (Inr v)"
| "await (Rejected e) = Some (Inl e)"
| "await Pending = None"

text \<open>\<^verbatim>\<open>next(): Promise<IteratorResult<T>> { return this.#inner.next(); }\<close>\<close>

definition AsyncIter_next ::
  "('s, 'e, 'a) AsyncIter \<Rightarrow> (('e, 'a) pulled \<times> ('s, 'e, 'a) AsyncIter) option" where
  "AsyncIter_next this =
     (case inner_next this (inner this) of
        None \<Rightarrow> None
      | Some (r, s) \<Rightarrow> Some (r, this\<lparr>inner := s\<rparr>))"

text \<open>\<^verbatim>\<open>[Symbol.asyncIterator]() { return this; }\<close>\<close>

definition Symbol_asyncIterator :: "('s, 'e, 'a) AsyncIter \<Rightarrow> ('s, 'e, 'a) AsyncIter" where
  "Symbol_asyncIterator this = this"

text \<open>
  \<^verbatim>\<open>for await (const item of iter) { ... }\<close> inside an \<^verbatim>\<open>async function*\<close>, run until the
  generator next hands out a result.  Each turn awaits \<^verbatim>\<open>iter.next()\<close> and then runs the
  body.  A \<^verbatim>\<open>yield v\<close> in the body awaits \<open>v\<close> before the generator hands it out: the
  settled value is what the pull gets, a rejection is thrown at the \<^verbatim>\<open>yield\<close> and ends
  the generator, and a promise that never settles leaves the pull without an answer.
\<close>

partial_function (option) for_await_of ::
  "('l \<Rightarrow> 'a \<Rightarrow> ('l, 'e, ('e, 'b) Promise) completion option) \<Rightarrow> 'l \<Rightarrow> ('s, 'e, 'a) AsyncIter \<Rightarrow>
   (('e, 'b) pulled \<times> ('l, ('s, 'e, 'a) AsyncIter) generator) option" where
  "for_await_of body l iter =
     (case AsyncIter_next iter of
        None \<Rightarrow> None
      | Some (Inl e, iter') \<Rightarrow> Some (Inl e, Completed iter')
      | Some (Inr r, iter') \<Rightarrow>
          (case item_of r of
             None \<Rightarrow> Some (Inr Finished, Completed iter')
           | Some item \<Rightarrow>
               (case body l item of
                  None \<Rightarrow> None
                | Some (YieldThen v l') \<Rightarrow>
                    (case await v of
                       None \<Rightarrow> None
                     | Some (Inl e) \<Rightarrow> Some (Inl e, Completed iter')
                     | Some (Inr x) \<Rightarrow> Some (Inr (Yielded x), SuspendedYield l' iter'))
                | Some (Continue l') \<Rightarrow> for_await_of body l' iter'
                | Some Break \<Rightarrow> Some (Inr Finished, Completed iter')
                | Some (Throw e) \<Rightarrow> Some (Inl e, Completed iter'))))"

definition async_loop_generator ::
  "('l \<Rightarrow> 'a \<Rightarrow> ('l, 'e, ('e, 'b) Promise) completion option) \<Rightarrow> 'l \<Rightarrow> ('s, 'e, 'a) AsyncIter \<Rightarrow>
   (('l, ('s, 'e, 'a) AsyncIter) generator, 'e, 'b) AsyncIter" where
  "async_loop_generator body l0 iter =
     \<lparr>inner = SuspendedStart iter,
      inner_next = generator_next (for_await_of body l0) (for_await_of body)\<rparr>"

text \<open>\<^verbatim>\<open>filter\<close>: \<^verbatim>\<open>if (await predicate(item)) yield item;\<close>\<close>

definition async_filter_body ::
  "('a \<Rightarrow> ('e, bool) Promise) \<Rightarrow> unit \<Rightarrow> 'a \<Rightarrow> (unit, 'e, ('e, 'a) Promise) completion option" where
  "async_filter_body predicate l item =
     (case await (predicate item) of
        None \<Rightarrow> None
      | Some (Inl e) \<Rightarrow> Some (Throw e)
      | Some (Inr b) \<Rightarrow> Some (if b then YieldThen (Fulfilled item) l else Continue l))"

definition AsyncIter_filter ::
  "('a \<Rightarrow> ('e, bool) Promise) \<Rightarrow> ('s, 'e, 'a) AsyncIter \<Rightarrow>
   ((unit, ('s, 'e, 'a) AsyncIter) generator, 'e, 'a) AsyncIter" where
  "AsyncIter_filter predicate this = async_loop_generator (async_filter_body predicate) () this"

text \<open>\<^verbatim>\<open>filterSync\<close>: \<^verbatim>\<open>if (predicate(item)) yield item;\<close>\<close>

definition async_filterSync_body ::
  "('a \<Rightarrow> 'e + bool) \<Rightarrow> unit \<Rightarrow> 'a \<Rightarrow> (unit, 'e, ('e, 'a) Promise) completion option" where
  "async_filterSync_body predicate l item =
     Some (case predicate item of
             Inl e \<Rightarrow> Throw e
           | Inr b \<Rightarrow> if b then YieldThen (Fulfilled item) l else Continue l)"

definition AsyncIter_filterSync ::
  "('a \<Rightarrow> 'e + bool) \<Rightarrow> ('s, 'e, 'a) AsyncIter \<Rightarrow>
   ((unit, ('s, 'e, 'a) AsyncIter) generator, 'e, 'a) AsyncIter" where
  "AsyncIter_filterSync predicate this =
     async_loop_generator (async_filterSync_body predicate) () this"

text \<open>\<^verbatim>\<open>filterMap\<close>: \<^verbatim>\<open>const mapped = await func(item); if (mapped !== undefined) yield mapped;\<close>\<close>

definition async_filterMap_body ::
  "('a \<Rightarrow> ('e, 'b option) Promise) \<Rightarrow> unit \<Rightarrow> 'a \<Rightarrow>
   (unit, 'e, ('e, 'b) Promise) completion option" where
  "async_filterMap_body func l item =
     (case await (func item) of
        None \<Rightarrow> None
      | Some (Inl e) \<Rightarrow> Some (Throw e)
      | Some (Inr mapped) \<Rightarrow>
          Some (case mapped of None \<Rightarrow> Continue l | Some v \<Rightarrow> YieldThen (Fulfilled v) l))"

definition AsyncIter_filterMap ::
  "('a \<Rightarrow> ('e, 'b option) Promise) \<Rightarrow> ('s, 'e, 'a) AsyncIter \<Rightarrow>
   ((unit, ('s, 'e, 'a) AsyncIter) generator, 'e, 'b) AsyncIter" where
  "AsyncIter_filterMap func this = async_loop_generator (async_filterMap_body func) () this"

text \<open>
  \<^verbatim>\<open>filterMapSync\<close>: \<^verbatim>\<open>const mapped = func(item); if (mapped !== undefined) yield mapped;\<close>
  The function is called without \<^verbatim>\<open>await\<close>: it throws, returns \<^verbatim>\<open>undefined\<close> or returns a
  value, which may be a promise.  The test is made on what it returned; the \<^verbatim>\<open>yield\<close>
  awaits it.
\<close>

definition async_filterMapSync_body ::
  "('a \<Rightarrow> 'e + ('e, 'b) Promise option) \<Rightarrow> unit \<Rightarrow> 'a \<Rightarrow>
   (unit, 'e, ('e, 'b) Promise) completion option" where
  "async_filterMapSync_body func l item =
     Some (case func item of
             Inl e \<Rightarrow> Throw e
           | Inr mapped \<Rightarrow> (case mapped of None \<Rightarrow> Continue l | Some v \<Rightarrow> YieldThen v l))"

definition AsyncIter_filterMapSync ::
  "('a \<Rightarrow> 'e + ('e, 'b) Promise option) \<Rightarrow> ('s, 'e, 'a) AsyncIter \<Rightarrow>
   ((unit, ('s, 'e, 'a) AsyncIter) generator, 'e, 'b) AsyncIter" where
  "AsyncIter_filterMapSync func this =
     async_loop_generator (async_filterMapSync_body func) () this"

text \<open>\<^verbatim>\<open>map\<close>: \<^verbatim>\<open>yield await func(item);\<close>\<close>

definition async_map_body ::
  "('a \<Rightarrow> ('e, 'b) Promise) \<Rightarrow> unit \<Rightarrow> 'a \<Rightarrow> (unit, 'e, ('e, 'b) Promise) completion option" where
  "async_map_body func l item =
     (case await (func item) of
        None \<Rightarrow> None
      | Some (Inl e) \<Rightarrow> Some (Throw e)
      | Some (Inr v) \<Rightarrow> Some (YieldThen (Fulfilled v) l))"

definition AsyncIter_map ::
  "('a \<Rightarrow> ('e, 'b) Promise) \<Rightarrow> ('s, 'e, 'a) AsyncIter \<Rightarrow>
   ((unit, ('s, 'e, 'a) AsyncIter) generator, 'e, 'b) AsyncIter" where
  "AsyncIter_map func this = async_loop_generator (async_map_body func) () this"

text \<open>
  \<^verbatim>\<open>mapSync\<close>: \<^verbatim>\<open>yield func(item);\<close>  The function is called without \<^verbatim>\<open>await\<close>: it throws or
  returns a value, which may be a promise; the \<^verbatim>\<open>yield\<close> awaits what it returned.
\<close>

definition async_mapSync_body ::
  "('a \<Rightarrow> 'e + ('e, 'b) Promise) \<Rightarrow> unit \<Rightarrow> 'a \<Rightarrow>
   (unit, 'e, ('e, 'b) Promise) completion option" where
  "async_mapSync_body func l item =
     Some (case func item of Inl e \<Rightarrow> Throw e | Inr v \<Rightarrow> YieldThen v l)"

definition AsyncIter_mapSync ::
  "('a \<Rightarrow> 'e + ('e, 'b) Promise) \<Rightarrow> ('s, 'e, 'a) AsyncIter \<Rightarrow>
   ((unit, ('s, 'e, 'a) AsyncIter) generator, 'e, 'b) AsyncIter" where
  "AsyncIter_mapSync func this = async_loop_generator (async_mapSync_body func) () this"

text \<open>
  \<^verbatim>\<open>chain\<close>: the same two statements as in sync.ts, inside an \<^verbatim>\<open>async function*\<close>.  There
  \<^verbatim>\<open>yield*\<close> awaits each result of the delegate and yields its value in a result object
  of the generator's own, which always has \<^verbatim>\<open>done: false\<close>.
\<close>

fun async_chain_next ::
  "('s, 'e, 'a) AsyncIter \<Rightarrow> ('t, 'e, 'a) AsyncIter list \<Rightarrow> ('t, 'e, 'a) AsyncIter list \<Rightarrow>
   (('e, 'a) pulled \<times>
    (nat option, ('s, 'e, 'a) AsyncIter \<times> ('t, 'e, 'a) AsyncIter list) generator) option" where
  "async_chain_next iter before [] = Some (Inr Finished, Completed (iter, before))"
| "async_chain_next iter before (nextIterator # after) =
     (case AsyncIter_next (Symbol_asyncIterator nextIterator) of
        None \<Rightarrow> None
      | Some (Inl e, n') \<Rightarrow> Some (Inl e, Completed (iter, before @ n' # after))
      | Some (Inr r, n') \<Rightarrow>
          (case item_of r of
             None \<Rightarrow> async_chain_next iter (before @ [n']) after
           | Some v \<Rightarrow>
               Some (Inr (Yielded v),
                     SuspendedYield (Some (length before)) (iter, before @ n' # after))))"

definition async_chain_iter ::
  "('s, 'e, 'a) AsyncIter \<times> ('t, 'e, 'a) AsyncIter list \<Rightarrow>
   (('e, 'a) pulled \<times>
    (nat option, ('s, 'e, 'a) AsyncIter \<times> ('t, 'e, 'a) AsyncIter list) generator) option" where
  "async_chain_iter p =
     (case p of (iter, next) \<Rightarrow>
        (case AsyncIter_next (Symbol_asyncIterator iter) of
           None \<Rightarrow> None
         | Some (Inl e, iter') \<Rightarrow> Some (Inl e, Completed (iter', next))
         | Some (Inr r, iter') \<Rightarrow>
             (case item_of r of
                None \<Rightarrow> async_chain_next iter' [] next
              | Some v \<Rightarrow> Some (Inr (Yielded v), SuspendedYield None (iter', next)))))"

definition async_chain_resume ::
  "nat option \<Rightarrow> ('s, 'e, 'a) AsyncIter \<times> ('t, 'e, 'a) AsyncIter list \<Rightarrow>
   (('e, 'a) pulled \<times>
    (nat option, ('s, 'e, 'a) AsyncIter \<times> ('t, 'e, 'a) AsyncIter list) generator) option" where
  "async_chain_resume pos p =
     (case pos of
        None \<Rightarrow> async_chain_iter p
      | Some i \<Rightarrow> async_chain_next (fst p) (take i (snd p)) (drop i (snd p)))"

definition AsyncIter_chain ::
  "('t, 'e, 'a) AsyncIter list \<Rightarrow> ('s, 'e, 'a) AsyncIter \<Rightarrow>
   ((nat option, ('s, 'e, 'a) AsyncIter \<times> ('t, 'e, 'a) AsyncIter list) generator, 'e, 'a) AsyncIter" where
  "AsyncIter_chain next this =
     \<lparr>inner = SuspendedStart (this, next),
      inner_next = generator_next async_chain_iter async_chain_resume\<rparr>"

text \<open>
  \<^verbatim>\<open>zip\<close>: \<^verbatim>\<open>const rightIter = right[Symbol.asyncIterator]();\<close> and then as in sync.ts
  but for
  \<^verbatim>\<open>const [leftResult, rightResult] = await Promise.all([iter.next(), rightIter.next()]);\<close>
  Both calls are made before anything is awaited, so the right side is pulled even when
  the left pull is rejected.  \<^verbatim>\<open>Promise.all\<close> is rejected as soon as one of the two pulls
  is, also when the other one never settles; when both are rejected, the left one,
  started first, is taken to settle first.  It is fulfilled only when both are.  A pull
  that never settles leaves its object as it was.
\<close>

definition async_zip_loop ::
  "bool \<Rightarrow> ('s, 'e, 'a) AsyncIter \<times> ('t, 'e, 'a) AsyncIter \<Rightarrow>
   (('e, 'a \<times> 'a) pulled \<times>
    (bool, ('s, 'e, 'a) AsyncIter \<times> ('t, 'e, 'a) AsyncIter) generator) option" where
  "async_zip_loop done p =
     (case p of (iter, rightIter) \<Rightarrow>
        if done then Some (Inr Finished, Completed (iter, rightIter))
        else
          (case (AsyncIter_next iter, AsyncIter_next rightIter) of
             (None, None) \<Rightarrow> None
           | (None, Some (Inl e, right')) \<Rightarrow> Some (Inl e, Completed (iter, right'))
           | (None, Some (Inr rightResult, right')) \<Rightarrow> None
           | (Some (Inl e, iter'), None) \<Rightarrow> Some (Inl e, Completed (iter', rightIter))
           | (Some (Inl e, iter'), Some (_, right')) \<Rightarrow> Some (Inl e, Completed (iter', right'))
           | (Some (Inr leftResult, iter'), None) \<Rightarrow> None
           | (Some (Inr leftResult, iter'), Some (Inl e, right')) \<Rightarrow>
               Some (Inl e, Completed (iter', right'))
           | (Some (Inr leftResult, iter'), Some (Inr rightResult, right')) \<Rightarrow>
               (let done = (done \<or> done_or_true leftResult);
                    done = (done \<or> done_or_true rightResult)
                in if done then Some (Inr Finished, Completed (iter', right'))
                   else
                     (case zip_pair leftResult rightResult of
                        None \<Rightarrow> Some (Inr Finished, Completed (iter', right'))
                      | Some pair \<Rightarrow>
                          (case await (Fulfilled pair) of
                             None \<Rightarrow> None
                           | Some (Inl e) \<Rightarrow> Some (Inl e, Completed (iter', right'))
                           | Some (Inr v) \<Rightarrow>
                               Some (Inr (Yielded v), SuspendedYield done (iter', right')))))))"

definition AsyncIter_zip ::
  "('t, 'e, 'a) AsyncIter \<Rightarrow> ('s, 'e, 'a) AsyncIter \<Rightarrow>
   ((bool, ('s, 'e, 'a) AsyncIter \<times> ('t, 'e, 'a) AsyncIter) generator, 'e, 'a \<times> 'a) AsyncIter" where
  "AsyncIter_zip right this =
     (let rightIter = Symbol_asyncIterator right
      in \<lparr>inner = SuspendedStart (this, rightIter),
          inner_next = generator_next (async_zip_loop False) async_zip_loop\<rparr>)"

text \<open>\<^verbatim>\<open>enumerate\<close>: \<^verbatim>\<open>let index = 0; ... yield [index++, item] as [number, T];\<close>\<close>

definition async_enumerate_body ::
  "nat \<Rightarrow> 'a \<Rightarrow> (nat, 'e, ('e, nat \<times> 'a) Promise) completion option" where
  "async_enumerate_body index item = Some (YieldThen (Fulfilled (index, item)) (index + 1))"

definition AsyncIter_enumerate ::
  "('s, 'e, 'a) AsyncIter \<Rightarrow> ((nat, ('s, 'e, 'a) AsyncIter) generator, 'e, nat \<times> 'a) AsyncIter" where
  "AsyncIter_enumerate this = async_loop_generator async_enumerate_body 0 this"

text \<open>\<^verbatim>\<open>take\<close>: \<^verbatim>\<open>let count = 0; ... if (++count > limit) break; yield item;\<close>
  (\<open>count'\<close> is the code's \<^verbatim>\<open>count\<close>.)\<close>

definition async_take_body ::
  "int \<Rightarrow> int \<Rightarrow> 'a \<Rightarrow> (int, 'e, ('e, 'a) Promise) completion option" where
  "async_take_body limit count' item =
     Some (let count' = count' + 1
           in if count' > limit then Break else YieldThen (Fulfilled item) count')"

definition AsyncIter_take ::
  "int \<Rightarrow> ('s, 'e, 'a) AsyncIter \<Rightarrow> ((int, ('s, 'e, 'a) AsyncIter) generator, 'e, 'a) AsyncIter" where
  "AsyncIter_take limit this = async_loop_generator (async_take_body limit) 0 this"

text \<open>\<^verbatim>\<open>skip\<close>: \<^verbatim>\<open>let count = 0; ... if (++count <= items) continue; yield item;\<close>\<close>

definition async_skip_body ::
  "int \<Rightarrow> int \<Rightarrow> 'a \<Rightarrow> (int, 'e, ('e, 'a) Promise) completion option" where
  "async_skip_body items count' item =
     Some (let count' = count' + 1
           in if count' \<le> items then Continue count' else YieldThen (Fulfilled item) count')"

definition AsyncIter_skip ::
  "int \<Rightarrow> ('s, 'e, 'a) AsyncIter \<Rightarrow> ((int, ('s, 'e, 'a) AsyncIter) generator, 'e, 'a) AsyncIter" where
  "AsyncIter_skip items this = async_loop_generator (async_skip_body items) 0 this"

text \<open>
  The terminal operations are \<^verbatim>\<open>async\<close> methods with their own loops under \<^verbatim>\<open>for await\<close>;
  the function given to \<^verbatim>\<open>reduce\<close> and \<^verbatim>\<open>forEach\<close> is called without \<^verbatim>\<open>await\<close>.  What they
  return is what awaiting the returned promise gives: its value, its rejection, or
  nothing when it never settles.

  \<^verbatim>\<open>reduce\<close>: \<^verbatim>\<open>let result = initial; for await (const item of this) { result =
  func(result, item); } return result;\<close>
\<close>

partial_function (option) AsyncIter_reduce ::
  "('x \<Rightarrow> 'a \<Rightarrow> 'e + 'x) \<Rightarrow> 'x \<Rightarrow> ('s, 'e, 'a) AsyncIter \<Rightarrow>
   (('e + 'x) \<times> ('s, 'e, 'a) AsyncIter) option" where
  "AsyncIter_reduce func result this =
     (case AsyncIter_next this of
        None \<Rightarrow> None
      | Some (Inl e, this') \<Rightarrow> Some (Inl e, this')
      | Some (Inr r, this') \<Rightarrow>
          (case item_of r of
             None \<Rightarrow> Some (Inr result, this')
           | Some item \<Rightarrow>
               (case func result item of
                  Inl e \<Rightarrow> Some (Inl e, this')
                | Inr result' \<Rightarrow> AsyncIter_reduce func result' this')))"

text \<open>\<^verbatim>\<open>collect\<close>: \<^verbatim>\<open>return this.reduce((prev, curr) => [...prev, curr], [] as T[]);\<close>\<close>

definition AsyncIter_collect ::
  "('s, 'e, 'a) AsyncIter \<Rightarrow> (('e + 'a list) \<times> ('s, 'e, 'a) AsyncIter) option" where
  "AsyncIter_collect this = AsyncIter_reduce (\<lambda>prev curr. Inr (prev @ [curr])) [] this"

text \<open>\<^verbatim>\<open>count\<close>: \<^verbatim>\<open>let count = 0; for await (const _ of this) { count++; } return count;\<close>\<close>

partial_function (option) async_count_loop ::
  "nat \<Rightarrow> ('s, 'e, 'a) AsyncIter \<Rightarrow> (('e + nat) \<times> ('s, 'e, 'a) AsyncIter) option" where
  "async_count_loop count' this =
     (case AsyncIter_next this of
        None \<Rightarrow> None
      | Some (Inl e, this') \<Rightarrow> Some (Inl e, this')
      | Some (Inr r, this') \<Rightarrow>
          (case item_of r of
             None \<Rightarrow> Some (Inr count', this')
           | Some item \<Rightarrow> async_count_loop (count' + 1) this'))"

definition AsyncIter_count ::
  "('s, 'e, 'a) AsyncIter \<Rightarrow> (('e + nat) \<times> ('s, 'e, 'a) AsyncIter) option" where
  "AsyncIter_count this = async_count_loop 0 this"

text \<open>\<^verbatim>\<open>forEach\<close>: \<^verbatim>\<open>for await (const item of this) { func(item); }\<close>\<close>

partial_function (option) AsyncIter_forEach ::
  "('a \<Rightarrow> 'w \<Rightarrow> 'e + 'w) \<Rightarrow> 'w \<Rightarrow> ('s, 'e, 'a) AsyncIter \<Rightarrow>
   (('e + unit) \<times> 'w \<times> ('s, 'e, 'a) AsyncIter) option" where
  "AsyncIter_forEach func world this =
     (case AsyncIter_next this of
        None \<Rightarrow> None
      | Some (Inl e, this') \<Rightarrow> Some (Inl e, world, this')
      | Some (Inr r, this') \<Rightarrow>
          (case item_of r of
             None \<Rightarrow> Some (Inr (), world, this')
           | Some item \<Rightarrow>
               (case func item world of
                  Inl e \<Rightarrow> Some (Inl e, world, this')
                | Inr world' \<Rightarrow> AsyncIter_forEach func world' this')))"

section \<open>Observing a wrapper\<close>

text \<open>
  The loops of the code are run here on what a parent answers.  \<open>pull_n n\<close> calls
  \<^verbatim>\<open>next()\<close> \<open>n\<close> times and keeps every answer and the wrapper as the calls left it.
\<close>

fun pull_n :: "nat \<Rightarrow> ('s, 'e, 'a) Iter \<Rightarrow> (('e, 'a) pulled list \<times> ('s, 'e, 'a) Iter) option" where
  "pull_n 0 it = Some ([], it)"
| "pull_n (Suc n) it =
     (case Iter_next it of
        None \<Rightarrow> None
      | Some (r, it1) \<Rightarrow>
          (case pull_n n it1 of
             None \<Rightarrow> None
           | Some (rs, it') \<Rightarrow> Some (r # rs, it')))"

text \<open>
  \<open>yields it xs it'\<close>: the next \<open>length xs\<close> pulls of \<open>it\<close> give the elements \<open>xs\<close> and
  leave \<open>it'\<close>.  \<open>ends it xs r it'\<close>: they do, and one more pull answers \<open>r\<close>.
  \<open>drains it xs it'\<close>: that last answer is \<^verbatim>\<open>{done: true}\<close>, so \<open>it\<close> is a finite sequence
  of the elements \<open>xs\<close>.
\<close>

definition yields :: "('s, 'e, 'a) Iter \<Rightarrow> 'a list \<Rightarrow> ('s, 'e, 'a) Iter \<Rightarrow> bool" where
  "yields it xs it' = (pull_n (length xs) it = Some (map (\<lambda>x. Inr (Yielded x)) xs, it'))"

definition ends :: "('s, 'e, 'a) Iter \<Rightarrow> 'a list \<Rightarrow> ('e, 'a) pulled \<Rightarrow> ('s, 'e, 'a) Iter \<Rightarrow> bool" where
  "ends it xs r it' =
     (pull_n (Suc (length xs)) it = Some (map (\<lambda>x. Inr (Yielded x)) xs @ [r], it'))"

definition drains :: "('s, 'e, 'a) Iter \<Rightarrow> 'a list \<Rightarrow> ('s, 'e, 'a) Iter \<Rightarrow> bool" where
  "drains it xs it' =
     (pull_n (Suc (length xs)) it = Some (map (\<lambda>x. Inr (Yielded x)) xs @ [Inr Finished], it'))"

fun drains_all ::
  "('s, 'e, 'a) Iter list \<Rightarrow> 'a list list \<Rightarrow> ('s, 'e, 'a) Iter list \<Rightarrow> bool" where
  "drains_all [] [] [] = True"
| "drains_all (it # its) (xs # xss) (it' # its') = (drains it xs it' \<and> drains_all its xss its')"
| "drains_all its xss its' = False"

text \<open>The answers that end a \<^verbatim>\<open>for ... of\<close> loop over the object that gives them.\<close>

fun stops :: "('e, 'a) pulled \<Rightarrow> bool" where
  "stops (Inl e) = True"
| "stops (Inr Finished) = True"
| "stops (Inr (Yielded v)) = False"
| "stops (Inr (Unflagged v)) = False"

text \<open>What a generator that loops over an object answers when that object's answer
  ends the loop: a failure goes through, exhaustion ends the generator.\<close>

fun stop_as :: "('e, 'a) pulled \<Rightarrow> ('e, 'b) pulled" where
  "stop_as (Inl e) = Inl e"
| "stop_as (Inr r) = Inr Finished"

text \<open>A raw source after \<open>n\<close> calls, and a generator-backed wrapper in a given state of
  its generator.\<close>

definition advanced :: "(nat, 'e, 'a) Iter \<Rightarrow> nat \<Rightarrow> (nat, 'e, 'a) Iter" where
  "advanced src n = src\<lparr>inner := n\<rparr>"

definition loop_at ::
  "('l \<Rightarrow> 'a \<Rightarrow> ('l, 'e, 'b) completion option) \<Rightarrow> 'l \<Rightarrow> ('l, ('s, 'e, 'a) Iter) generator \<Rightarrow>
   (('l, ('s, 'e, 'a) Iter) generator, 'e, 'b) Iter" where
  "loop_at body l0 g = \<lparr>inner = g, inner_next = generator_next (for_of body l0) (for_of body)\<rparr>"

definition chain_at ::
  "(nat option, ('s, 'e, 'a) Iter \<times> ('t, 'e, 'a) Iter list) generator \<Rightarrow>
   ((nat option, ('s, 'e, 'a) Iter \<times> ('t, 'e, 'a) Iter list) generator, 'e, 'a) Iter" where
  "chain_at g = \<lparr>inner = g, inner_next = generator_next chain_iter chain_resume\<rparr>"

definition zip_at ::
  "(bool, ('s, 'e, 'a) Iter \<times> ('t, 'e, 'a) Iter) generator \<Rightarrow>
   ((bool, ('s, 'e, 'a) Iter \<times> ('t, 'e, 'a) Iter) generator, 'e, 'a \<times> 'a) Iter" where
  "zip_at g = \<lparr>inner = g, inner_next = generator_next (zip_loop False) zip_loop\<rparr>"

definition flat_at ::
  "('a list, ('s, 'e, 'a list) Iter) generator \<Rightarrow>
   (('a list, ('s, 'e, 'a list) Iter) generator, 'e, 'a) Iter" where
  "flat_at g = \<lparr>inner = g, inner_next = generator_next (flat_loop []) flat_loop\<rparr>"

definition async_chain_at ::
  "(nat option, ('s, 'e, 'a) Iter \<times> ('t, 'e, 'a) Iter list) generator \<Rightarrow>
   ((nat option, ('s, 'e, 'a) Iter \<times> ('t, 'e, 'a) Iter list) generator, 'e, 'a) Iter" where
  "async_chain_at g = \<lparr>inner = g, inner_next = generator_next async_chain_iter async_chain_resume\<rparr>"

definition async_zip_at ::
  "(bool, ('s, 'e, 'a) Iter \<times> ('t, 'e, 'a) Iter) generator \<Rightarrow>
   ((bool, ('s, 'e, 'a) Iter \<times> ('t, 'e, 'a) Iter) generator, 'e, 'a \<times> 'a) Iter" where
  "async_zip_at g = \<lparr>inner = g, inner_next = generator_next (async_zip_loop False) async_zip_loop\<rparr>"

text \<open>
  A loop body run over a list of items, from given locals: what it yields up to the
  first item on which it breaks, throws or hangs (\<open>loop_out\<close>), and the locals after
  the list if it got through it (\<open>loop_locals\<close>).  \<open>completion_end\<close> is the answer of
  the generator when the body leaves the loop.
\<close>

fun loop_out :: "('l \<Rightarrow> 'a \<Rightarrow> ('l, 'e, 'b) completion option) \<Rightarrow> 'l \<Rightarrow> 'a list \<Rightarrow> 'b list" where
  "loop_out body l [] = []"
| "loop_out body l (x # xs) =
     (case body l x of
        Some (YieldThen v l') \<Rightarrow> v # loop_out body l' xs
      | Some (Continue l') \<Rightarrow> loop_out body l' xs
      | _ \<Rightarrow> [])"

fun loop_locals :: "('l \<Rightarrow> 'a \<Rightarrow> ('l, 'e, 'b) completion option) \<Rightarrow> 'l \<Rightarrow> 'a list \<Rightarrow> 'l option" where
  "loop_locals body l [] = Some l"
| "loop_locals body l (x # xs) =
     (case body l x of
        Some (YieldThen v l') \<Rightarrow> loop_locals body l' xs
      | Some (Continue l') \<Rightarrow> loop_locals body l' xs
      | _ \<Rightarrow> None)"

fun completion_end :: "('l, 'e, 'b) completion \<Rightarrow> ('e, 'b) pulled option" where
  "completion_end Break = Some (Inr Finished)"
| "completion_end (Throw e) = Some (Inl e)"
| "completion_end (YieldThen v l) = None"
| "completion_end (Continue l) = None"

text \<open>A left fold with a function that may throw: the first failure is the result.\<close>

fun fold_sum :: "('x \<Rightarrow> 'a \<Rightarrow> 'e + 'x) \<Rightarrow> 'x \<Rightarrow> 'a list \<Rightarrow> 'e + 'x" where
  "fold_sum func result [] = Inr result"
| "fold_sum func result (x # xs) =
     (case func result x of Inl e \<Rightarrow> Inl e | Inr result' \<Rightarrow> fold_sum func result' xs)"

text \<open>An \<^verbatim>\<open>async\<close> function that does what a plain one does and settles at once.\<close>

definition suspending :: "('a \<Rightarrow> 'e + 'b) \<Rightarrow> 'a \<Rightarrow> ('e, 'b) Promise" where
  "suspending func x = (case func x of Inl e \<Rightarrow> Rejected e | Inr v \<Rightarrow> Fulfilled v)"

text \<open>
  The body of a \<^verbatim>\<open>for await\<close> loop with the \<^verbatim>\<open>await\<close> of its \<^verbatim>\<open>yield\<close> counted as part of the
  body: the value yielded is the settled one, a rejection is a throw, and a promise that
  never settles is a body that never returns.
\<close>

definition settled ::
  "('l \<Rightarrow> 'a \<Rightarrow> ('l, 'e, ('e, 'b) Promise) completion option) \<Rightarrow>
   'l \<Rightarrow> 'a \<Rightarrow> ('l, 'e, 'b) completion option" where
  "settled body l item =
     (case body l item of
        None \<Rightarrow> None
      | Some (YieldThen v l') \<Rightarrow>
          (case await v of
             None \<Rightarrow> None
           | Some (Inl e) \<Rightarrow> Some (Throw e)
           | Some (Inr x) \<Rightarrow> Some (YieldThen x l'))
      | Some (Continue l') \<Rightarrow> Some (Continue l')
      | Some Break \<Rightarrow> Some Break
      | Some (Throw e) \<Rightarrow> Some (Throw e))"

declare for_of.simps [code] flat_loop.simps [code] reduce.simps [code]
  count_loop.simps [code] forEach.simps [code] for_await_of.simps [code]
  AsyncIter_reduce.simps [code] async_count_loop.simps [code] AsyncIter_forEach.simps [code]

section \<open>Pulls, traces and sources\<close>

lemma yields_Nil [simp]: "yields it [] it' = (it' = it)"
  by (auto simp: yields_def)

lemma yields_Cons:
  "yields it (x # xs) it' = (\<exists>it1. Iter_next it = Some (Inr (Yielded x), it1) \<and> yields it1 xs it')"
  by (auto simp: yields_def split: option.splits)

lemma drains_Nil: "drains it [] it' = (Iter_next it = Some (Inr Finished, it'))"
  by (auto simp: drains_def split: option.splits)

lemma drains_Cons:
  "drains it (x # xs) it' = (\<exists>it1. Iter_next it = Some (Inr (Yielded x), it1) \<and> drains it1 xs it')"
  by (auto simp: drains_def split: option.splits)

lemma drains_cong: "Iter_next a = Iter_next b \<Longrightarrow> drains a xs c = drains b xs c"
  by (cases xs) (simp_all add: drains_Nil drains_Cons)

lemma yields_append:
  "yields it (xs @ ys) it' = (\<exists>it1. yields it xs it1 \<and> yields it1 ys it')"
  by (induction xs arbitrary: it) (auto simp: yields_Cons)

lemma drains_append:
  "drains it (xs @ ys) it' = (\<exists>it1. yields it xs it1 \<and> drains it1 ys it')"
  by (induction xs arbitrary: it) (auto simp: yields_Cons drains_Cons)

subsection \<open>One turn of a loop\<close>

lemma for_of_Finished:
  "Iter_next it = Some (Inr Finished, it1) \<Longrightarrow> for_of body l it = Some (Inr Finished, Completed it1)"
  by (subst for_of.simps) simp

lemma for_of_Yielded:
  "Iter_next it = Some (Inr (Yielded x), it1) \<Longrightarrow>
   for_of body l it =
     (case body l x of
        None \<Rightarrow> None
      | Some (YieldThen v l') \<Rightarrow> Some (Inr (Yielded v), SuspendedYield l' it1)
      | Some (Continue l') \<Rightarrow> for_of body l' it1
      | Some Break \<Rightarrow> Some (Inr Finished, Completed it1)
      | Some (Throw e) \<Rightarrow> Some (Inl e, Completed it1))"
  by (subst for_of.simps) simp

lemma loop_generator_at: "loop_generator body l0 it = loop_at body l0 (SuspendedStart it)"
  by (simp add: loop_generator_def loop_at_def)

lemma next_loop_at:
  "Iter_next (loop_at body l0 g) =
     map_option (\<lambda>(r, g'). (r, loop_at body l0 g'))
       (case g of SuspendedStart it \<Rightarrow> for_of body l0 it
        | SuspendedYield l it \<Rightarrow> for_of body l it
        | Completed it \<Rightarrow> Some (Inr Finished, Completed it))"
  by (auto simp: Iter_next_def loop_at_def generator_next_def split: generator.splits option.splits)

subsection \<open>A loop over a parent that ends\<close>

lemma loop_drains:
  "drains it xs it' \<Longrightarrow> loop_locals body l xs = Some l' \<Longrightarrow>
   drains (loop_at body l0 (SuspendedYield l it)) (loop_out body l xs) (loop_at body l0 (Completed it'))"
proof (induction xs arbitrary: it l)
  case Nil
  then show ?case
    by (simp add: drains_Nil next_loop_at for_of_Finished)
next
  case (Cons x xs)
  from Cons.prems(1) obtain it1 where
    n: "Iter_next it = Some (Inr (Yielded x), it1)" and d: "drains it1 xs it'"
    by (auto simp: drains_Cons)
  from Cons.prems(2) consider
    (y) v l1 where "body l x = Some (YieldThen v l1)" "loop_locals body l1 xs = Some l'"
    | (c) l1 where "body l x = Some (Continue l1)" "loop_locals body l1 xs = Some l'"
    by (auto split: option.splits completion.splits)
  then show ?case
  proof cases
    case y
    with n Cons.IH[OF d y(2)] show ?thesis
      by (simp add: drains_Cons next_loop_at for_of_Yielded)
  next
    case c
    have "Iter_next (loop_at body l0 (SuspendedYield l it)) =
          Iter_next (loop_at body l0 (SuspendedYield l1 it1))"
      using n c by (simp add: next_loop_at for_of_Yielded)
    from drains_cong[OF this] c Cons.IH[OF d c(2)] show ?thesis
      by simp
  qed
qed

lemma drains_ends: "drains it xs it' = ends it xs (Inr Finished) it'"
  by (simp add: drains_def ends_def)

lemma ends_Nil: "ends it [] r it' = (Iter_next it = Some (r, it'))"
  by (auto simp: ends_def split: option.splits)

lemma ends_Cons:
  "ends it (x # xs) r it' = (\<exists>it1. Iter_next it = Some (Inr (Yielded x), it1) \<and> ends it1 xs r it')"
  by (auto simp: ends_def split: option.splits)

lemma ends_cong: "Iter_next a = Iter_next b \<Longrightarrow> ends a xs r c = ends b xs r c"
  by (cases xs) (simp_all add: ends_Nil ends_Cons)

lemma ends_append:
  "ends it (xs @ ys) r it' = (\<exists>it1. yields it xs it1 \<and> ends it1 ys r it')"
  by (induction xs arbitrary: it) (auto simp: yields_Cons ends_Cons)

lemma yields_snoc:
  "yields it (xs @ [x]) it' = (\<exists>it1. yields it xs it1 \<and> Iter_next it1 = Some (Inr (Yielded x), it'))"
  by (auto simp: yields_append yields_Cons)

lemma for_of_stops:
  "Iter_next it = Some (r, it1) \<Longrightarrow> stops r \<Longrightarrow> for_of body l it = Some (stop_as r, Completed it1)"
  by (subst for_of.simps, cases r rule: stops.cases) simp_all

lemma loop_ends_parent:
  "ends it xs r it' \<Longrightarrow> stops r \<Longrightarrow> loop_locals body l xs = Some l' \<Longrightarrow>
   ends (loop_at body l0 (SuspendedYield l it)) (loop_out body l xs) (stop_as r)
     (loop_at body l0 (Completed it'))"
proof (induction xs arbitrary: it l)
  case Nil
  then show ?case
    by (simp add: ends_Nil next_loop_at for_of_stops)
next
  case (Cons x xs)
  from Cons.prems(1) obtain it1 where
    n: "Iter_next it = Some (Inr (Yielded x), it1)" and d: "ends it1 xs r it'"
    by (auto simp: ends_Cons)
  from Cons.prems(3) consider
    (y) v l1 where "body l x = Some (YieldThen v l1)" "loop_locals body l1 xs = Some l'"
    | (c) l1 where "body l x = Some (Continue l1)" "loop_locals body l1 xs = Some l'"
    by (auto split: option.splits completion.splits)
  then show ?case
  proof cases
    case y
    with n Cons.IH[OF d Cons.prems(2) y(2)] show ?thesis
      by (simp add: ends_Cons next_loop_at for_of_Yielded)
  next
    case c
    have "Iter_next (loop_at body l0 (SuspendedYield l it)) =
          Iter_next (loop_at body l0 (SuspendedYield l1 it1))"
      using n c by (simp add: next_loop_at for_of_Yielded)
    from ends_cong[OF this] c Cons.IH[OF d Cons.prems(2) c(2)] show ?thesis
      by simp
  qed
qed

lemma loop_ends_body:
  "yields it xs it1 \<Longrightarrow> Iter_next it1 = Some (Inr (Yielded x), it') \<Longrightarrow>
   loop_locals body l xs = Some l' \<Longrightarrow> body l' x = Some c \<Longrightarrow> completion_end c = Some r \<Longrightarrow>
   ends (loop_at body l0 (SuspendedYield l it)) (loop_out body l xs) r (loop_at body l0 (Completed it'))"
proof (induction xs arbitrary: it l)
  case Nil
  then show ?case
    by (cases c) (simp_all add: ends_Nil next_loop_at for_of_Yielded)
next
  case (Cons y xs)
  from Cons.prems(1) obtain it2 where
    n: "Iter_next it = Some (Inr (Yielded y), it2)" and d: "yields it2 xs it1"
    by (auto simp: yields_Cons)
  from Cons.prems(3) consider
    (y) v l1 where "body l y = Some (YieldThen v l1)" "loop_locals body l1 xs = Some l'"
    | (c) l1 where "body l y = Some (Continue l1)" "loop_locals body l1 xs = Some l'"
    by (auto split: option.splits completion.splits)
  then show ?case
  proof cases
    case y
    with n Cons.IH[OF d Cons.prems(2) y(2) Cons.prems(4,5)] show ?thesis
      by (simp add: ends_Cons next_loop_at for_of_Yielded)
  next
    case c
    have "Iter_next (loop_at body l0 (SuspendedYield l it)) =
          Iter_next (loop_at body l0 (SuspendedYield l1 it2))"
      using n c by (simp add: next_loop_at for_of_Yielded)
    from ends_cong[OF this] c Cons.IH[OF d Cons.prems(2) c(2) Cons.prems(4,5)] show ?thesis
      by simp
  qed
qed

lemma next_loop_start:
  "Iter_next (loop_generator body l0 it) = Iter_next (loop_at body l0 (SuspendedYield l0 it))"
  by (simp add: loop_generator_at next_loop_at)


subsection \<open>Terminal operations on a parent that ends\<close>

lemma reduce_ends:
  "ends it xs r it' \<Longrightarrow> stops r \<Longrightarrow> fold_sum func a xs = Inr b \<Longrightarrow>
   reduce func a it = Some (case r of Inl e \<Rightarrow> Inl e | Inr _ \<Rightarrow> Inr b, it')"
proof (induction xs arbitrary: it a)
  case Nil
  then show ?case
    by (subst reduce.simps, cases r rule: stops.cases) (simp_all add: ends_Nil)
next
  case (Cons x xs)
  from Cons.prems(1) obtain it1 where
    n: "Iter_next it = Some (Inr (Yielded x), it1)" and d: "ends it1 xs r it'"
    by (auto simp: ends_Cons)
  from Cons.prems(3) obtain a1 where a1: "func a x = Inr a1" "fold_sum func a1 xs = Inr b"
    by (auto split: sum.splits)
  from Cons.IH[OF d Cons.prems(2) a1(2)] n a1(1) show ?case
    by (subst reduce.simps) simp
qed


lemma fold_sum_snoc: "fold_sum (\<lambda>prev curr. Inr (prev @ [curr])) acc xs = Inr (acc @ xs)"
  by (induction xs arbitrary: acc) simp_all

lemma fold_sum_pure: "fold_sum (\<lambda>a x. Inr (f a x)) a xs = Inr (foldl f a xs)"
  by (induction xs arbitrary: a) simp_all

lemma collect_drains: "drains it xs it' \<Longrightarrow> collect it = Some (Inr xs, it')"
  using reduce_ends[of it xs "Inr Finished" it' "\<lambda>prev curr. Inr (prev @ [curr])" "[]" xs]
  by (simp add: collect_def drains_ends fold_sum_snoc)


lemma count_loop_ends:
  "ends it xs r it' \<Longrightarrow> stops r \<Longrightarrow>
   count_loop c it = Some (case r of Inl e \<Rightarrow> Inl e | Inr _ \<Rightarrow> Inr (c + length xs), it')"
proof (induction xs arbitrary: it c)
  case Nil
  then show ?case
    by (subst count_loop.simps, cases r rule: stops.cases) (simp_all add: ends_Nil)
next
  case (Cons x xs)
  from Cons.prems(1) obtain it1 where
    n: "Iter_next it = Some (Inr (Yielded x), it1)" and d: "ends it1 xs r it'"
    by (auto simp: ends_Cons)
  from Cons.IH[OF d Cons.prems(2), of "c + 1"] n show ?case
    by (subst count_loop.simps) (simp split: sum.splits)
qed

lemma count_drains: "drains it xs it' \<Longrightarrow> count it = Some (Inr (length xs), it')"
  using count_loop_ends[of it xs "Inr Finished" it' 0] by (simp add: count_def drains_ends)



subsection \<open>Raw sources as traces\<close>

lemma source_advanced: "source a = advanced (source a) 0"
  by (simp add: advanced_def source_def)

lemma next_source: "Iter_next (advanced (source a) n) = Some (a n, advanced (source a) (Suc n))"
  by (simp add: Iter_next_def advanced_def source_def)

lemma yields_source:
  "(\<And>i. n \<le> i \<Longrightarrow> i < n + k \<Longrightarrow> a i = Inr (Yielded (g i))) \<Longrightarrow>
   yields (advanced (source a) n) (map g [n..<n + k]) (advanced (source a) (n + k))"
proof (induction k arbitrary: n)
  case 0
  then show ?case by simp
next
  case (Suc k)
  have "yields (advanced (source a) (Suc n)) (map g [Suc n..<Suc n + k]) (advanced (source a) (Suc n + k))"
    by (rule Suc.IH) (use Suc.prems in auto)
  moreover have "a n = Inr (Yielded (g n))"
    using Suc.prems by simp
  moreover have "[n..<n + Suc k] = n # [Suc n..<Suc n + k]"
    by (simp add: upt_conv_Cons)
  ultimately show ?case
    by (simp add: yields_Cons next_source del: upt_Suc)
qed

lemma yields_of_list: "yields (of_list xs) xs (advanced (of_list xs) (length xs))"
proof -
  have "yields (advanced (source (\<lambda>n. if n < length xs then Inr (Yielded (xs ! n)) else Inr Finished)) 0)
          (map (\<lambda>i. xs ! i) [0..<0 + length xs])
          (advanced (source (\<lambda>n. if n < length xs then Inr (Yielded (xs ! n)) else Inr Finished)) (0 + length xs))"
    by (rule yields_source) simp
  then show ?thesis
    by (simp add: of_list_def map_nth source_advanced[symmetric])
qed

lemma drains_of_list: "drains (of_list xs) xs (advanced (of_list xs) (Suc (length xs)))"
proof -
  have "xs = xs @ []" by simp
  moreover have "drains (advanced (of_list xs) (length xs)) [] (advanced (of_list xs) (Suc (length xs)))"
    by (simp add: drains_Nil of_list_def next_source)
  ultimately show ?thesis
    using yields_of_list[of xs] drains_append[of "of_list xs" xs "[]"] by auto
qed

lemma yields_endless: "yields (endless f) (map f [0..<k]) (advanced (endless f) k)"
  using yields_source[of 0 k "\<lambda>n. Inr (Yielded (f n))" f]
  by (simp add: endless_def source_advanced[symmetric])

subsection \<open>The loop bodies on lists\<close>



lemma filterMap_body_list:
  "\<forall>y\<in>set xs. func y = Inr (F y) \<Longrightarrow>
   loop_locals (filterMap_body func) u xs = Some u \<and>
   loop_out (filterMap_body func) u xs = List.map_filter F xs"
  by (induction xs) (auto simp: filterMap_body_def map_filter_simps split: option.splits)


lemma take_body_list:
  "c + int (length xs) \<le> limit \<Longrightarrow>
   loop_locals (take_body limit) c xs = Some (c + int (length xs)) \<and>
   loop_out (take_body limit) c xs = xs"
  by (induction xs arbitrary: c) (simp_all add: take_body_def Let_def)

lemma skip_body_list:
  "loop_locals (skip_body items) c xs = Some (c + int (length xs)) \<and>
   loop_out (skip_body items) c xs = drop (nat (items - c)) xs"
proof (induction xs arbitrary: c)
  case Nil
  then show ?case by simp
next
  case (Cons x xs)
  show ?case
  proof (cases "c + 1 \<le> items")
    case True
    then have "nat (items - c) = Suc (nat (items - (c + 1)))" by simp
    with True Cons[of "c + 1"] show ?thesis
      by (simp add: skip_body_def Let_def)
  next
    case False
    then have "nat (items - c) = 0" "nat (items - (c + 1)) = 0" by simp_all
    with False Cons[of "c + 1"] show ?thesis
      by (simp add: skip_body_def Let_def)
  qed
qed

subsection \<open>A generator that has stopped is completed\<close>

lemma for_of_stops_aux:
  "for_of body l it = Some y \<Longrightarrow> stops (fst y) \<longrightarrow> (\<exists>p. snd y = Completed p)"
  apply (rule for_of.raw_induct[rotated, where P = "\<lambda>body l it y. stops (fst y) \<longrightarrow> (\<exists>p. snd y = Completed p)"])
   apply assumption
  apply (auto split: option.splits prod.splits sum.splits completion.splits)
  done

lemma for_of_stops_Completed:
  "for_of body l it = Some (r, g) \<Longrightarrow> stops r \<Longrightarrow> \<exists>p. g = Completed p"
  using for_of_stops_aux[of body l it "(r, g)"] by simp

lemma flat_loop_stops_aux:
  "flat_loop rest it = Some y \<Longrightarrow> stops (fst y) \<longrightarrow> (\<exists>p. snd y = Completed p)"
  apply (rule flat_loop.raw_induct[rotated, where P = "\<lambda>rest it y. stops (fst y) \<longrightarrow> (\<exists>p. snd y = Completed p)"])
   apply assumption
  apply (auto split: option.splits prod.splits sum.splits list.splits)
  done

lemma flat_loop_stops_Completed:
  "flat_loop rest it = Some (r, g) \<Longrightarrow> stops r \<Longrightarrow> \<exists>p. g = Completed p"
  using flat_loop_stops_aux[of rest it "(r, g)"] by simp

lemma stops_item_of: "item_of r = Some v \<Longrightarrow> \<not> stops (Inr r)"
  by (cases r) simp_all

lemma chain_next_stops_Completed:
  "chain_next it before after = Some (r, g) \<Longrightarrow> stops r \<Longrightarrow> \<exists>p. g = Completed p"
  by (induction after arbitrary: before)
     (auto split: option.splits prod.splits sum.splits dest: stops_item_of)

lemma chain_iter_stops_Completed:
  "chain_iter p = Some (r, g) \<Longrightarrow> stops r \<Longrightarrow> \<exists>p. g = Completed p"
  by (auto simp: chain_iter_def split: option.splits prod.splits sum.splits
           dest: stops_item_of chain_next_stops_Completed)

lemma zip_loop_stops_Completed:
  "zip_loop d p = Some (r, g) \<Longrightarrow> stops r \<Longrightarrow> \<exists>p. g = Completed p"
  by (auto simp: zip_loop_def Let_def split: option.splits prod.splits sum.splits if_splits)

lemma repeatWith_loop_stops_Completed:
  "repeatWith_loop func i u = Some (r, g) \<Longrightarrow> stops r \<Longrightarrow> \<exists>p. g = Completed p"
  by (auto simp: repeatWith_loop_def split: sum.splits)

lemma generator_latch:
  assumes start: "\<And>p r g. start p = Some (r, g) \<Longrightarrow> stops r \<Longrightarrow> \<exists>q. g = Completed q"
    and resume: "\<And>l p r g. resume l p = Some (r, g) \<Longrightarrow> stops r \<Longrightarrow> \<exists>q. g = Completed q"
    and nx: "Iter_next \<lparr>inner = g0, inner_next = generator_next start resume\<rparr> = Some (r, w)"
    and st: "stops r"
  shows "pull_n n w = Some (replicate n (Inr Finished), w)"
proof -
  obtain g where g: "generator_next start resume g0 = Some (r, g)"
    and w: "w = \<lparr>inner = g, inner_next = generator_next start resume\<rparr>"
    using nx by (auto simp: Iter_next_def split: option.splits)
  have "\<exists>q. g = Completed q"
    using g st start resume by (cases g0) (auto simp: generator_next_def)
  then obtain q where q: "g = Completed q" ..
  have "Iter_next w = Some (Inr Finished, w)"
    by (simp add: w q Iter_next_def generator_next_def)
  then show ?thesis
    by (induction n) simp_all
qed

subsection \<open>chain on finite sequences\<close>

lemma Iter_chain_at: "Iter_chain others it = chain_at (SuspendedStart (it, others))"
  by (simp add: Iter_chain_def chain_at_def)

lemma next_chain_at:
  "Iter_next (chain_at g) =
     map_option (\<lambda>(r, g'). (r, chain_at g')) (generator_next chain_iter chain_resume g)"
  by (auto simp: Iter_next_def chain_at_def split: option.splits)

lemma chain_delegate:
  "drains n ys n' \<Longrightarrow>
   drains (chain_at (SuspendedYield (Some (Suc (length before))) (it, before @ n' # rest))) zs fin \<Longrightarrow>
   drains (chain_at (SuspendedYield (Some (length before)) (it, before @ n # rest))) (ys @ zs) fin"
proof (induction ys arbitrary: n)
  case Nil
  then have n: "Iter_next n = Some (Inr Finished, n')"
    by (simp add: drains_Nil)
  have "Iter_next (chain_at (SuspendedYield (Some (length before)) (it, before @ n # rest))) =
        Iter_next (chain_at (SuspendedYield (Some (Suc (length before))) (it, before @ n' # rest)))"
    using n by (simp add: next_chain_at generator_next_def chain_resume_def Symbol_iterator_def)
  from drains_cong[OF this] Nil.prems(2) show ?case by simp
next
  case (Cons y ys)
  from Cons.prems(1) obtain n1 where
    n: "Iter_next n = Some (Inr (Yielded y), n1)" and d: "drains n1 ys n'"
    by (auto simp: drains_Cons)
  from Cons.IH[OF d Cons.prems(2)] n show ?case
    by (simp add: drains_Cons next_chain_at generator_next_def chain_resume_def Symbol_iterator_def)
qed

lemma chain_others:
  "drains_all after yss after' \<Longrightarrow>
   drains (chain_at (SuspendedYield (Some (length before)) (it, before @ after))) (concat yss)
     (chain_at (Completed (it, before @ after')))"
proof (induction after yss after' arbitrary: before rule: drains_all.induct)
  case 1
  then show ?case
    by (simp add: drains_Nil next_chain_at generator_next_def chain_resume_def)
next
  case (2 n rest ys yss n' rest')
  then have d: "drains n ys n'" and ds: "drains_all rest yss rest'"
    by simp_all
  have "drains (chain_at (SuspendedYield (Some (length (before @ [n']))) (it, (before @ [n']) @ rest)))
          (concat yss) (chain_at (Completed (it, (before @ [n']) @ rest')))"
    by (rule "2.IH"[OF ds])
  then have "drains (chain_at (SuspendedYield (Some (Suc (length before))) (it, before @ n' # rest)))
          (concat yss) (chain_at (Completed (it, before @ n' # rest')))"
    by simp
  from chain_delegate[OF d this] show ?case by simp
qed simp_all

lemma chain_receiver:
  "drains it xs it' \<Longrightarrow>
   drains (chain_at (SuspendedYield (Some 0) (it', others))) zs fin \<Longrightarrow>
   drains (chain_at (SuspendedYield None (it, others))) (xs @ zs) fin"
proof (induction xs arbitrary: it)
  case Nil
  then have n: "Iter_next it = Some (Inr Finished, it')"
    by (simp add: drains_Nil)
  have "Iter_next (chain_at (SuspendedYield None (it, others))) =
        Iter_next (chain_at (SuspendedYield (Some 0) (it', others)))"
    using n by (simp add: next_chain_at generator_next_def chain_resume_def chain_iter_def Symbol_iterator_def)
  from drains_cong[OF this] Nil.prems(2) show ?case by simp
next
  case (Cons x xs)
  from Cons.prems(1) obtain it1 where
    n: "Iter_next it = Some (Inr (Yielded x), it1)" and d: "drains it1 xs it'"
    by (auto simp: drains_Cons)
  from Cons.IH[OF d Cons.prems(2)] n show ?case
    by (simp add: drains_Cons next_chain_at generator_next_def chain_resume_def chain_iter_def Symbol_iterator_def)
qed

lemma chain_drains:
  assumes "drains it xs it'" and "drains_all others yss others'"
  shows "drains (Iter_chain others it) (xs @ concat yss) (chain_at (Completed (it', others')))"
proof -
  have "drains (chain_at (SuspendedYield (Some 0) (it', others))) (concat yss)
          (chain_at (Completed (it', others')))"
    using chain_others[OF assms(2), of "[]" it'] by simp
  from chain_receiver[OF assms(1) this]
  have "drains (chain_at (SuspendedYield None (it, others))) (xs @ concat yss)
          (chain_at (Completed (it', others')))" .
  moreover have "Iter_next (Iter_chain others it) = Iter_next (chain_at (SuspendedYield None (it, others)))"
    by (simp add: Iter_chain_at next_chain_at generator_next_def chain_resume_def)
  ultimately show ?thesis
    using drains_cong by blast
qed

subsection \<open>zip on sequences of which one ends\<close>

lemma Iter_zip_at: "Iter_zip right this = zip_at (SuspendedStart (this, right))"
  by (simp add: Iter_zip_def zip_at_def Symbol_iterator_def)

lemma next_zip_at:
  "Iter_next (zip_at g) =
     map_option (\<lambda>(r, g'). (r, zip_at g')) (generator_next (zip_loop False) zip_loop g)"
  by (auto simp: Iter_next_def zip_at_def split: option.splits)

lemma zip_left_ends:
  "drains l xs l' \<Longrightarrow> yields r ys r1 \<Longrightarrow> length ys = length xs \<Longrightarrow>
   Iter_next r1 = Some (Inr rr, r') \<Longrightarrow>
   drains (zip_at (SuspendedYield False (l, r))) (zip xs ys) (zip_at (Completed (l', r')))"
proof (induction xs arbitrary: l r ys)
  case Nil
  then show ?case
    by (simp add: drains_Nil next_zip_at generator_next_def zip_loop_def)
next
  case (Cons x xs)
  from Cons.prems(3) obtain y ys' where ys: "ys = y # ys'" "length ys' = length xs"
    by (cases ys) auto
  from Cons.prems(1) obtain l1 where
    l: "Iter_next l = Some (Inr (Yielded x), l1)" and dl: "drains l1 xs l'"
    by (auto simp: drains_Cons)
  from Cons.prems(2) ys obtain r2 where
    r: "Iter_next r = Some (Inr (Yielded y), r2)" and dr: "yields r2 ys' r1"
    by (auto simp: yields_Cons)
  from Cons.IH[OF dl dr ys(2) Cons.prems(4)] l r ys show ?case
    by (simp add: drains_Cons next_zip_at generator_next_def zip_loop_def)
qed

lemma zip_right_ends:
  "yields l xs l1 \<Longrightarrow> Iter_next l1 = Some (Inr lr, l') \<Longrightarrow> drains r ys r' \<Longrightarrow>
   length ys = length xs \<Longrightarrow>
   drains (zip_at (SuspendedYield False (l, r))) (zip xs ys) (zip_at (Completed (l', r')))"
proof (induction xs arbitrary: l r ys)
  case Nil
  then show ?case
    by (simp add: drains_Nil next_zip_at generator_next_def zip_loop_def)
next
  case (Cons x xs)
  from Cons.prems(4) obtain y ys' where ys: "ys = y # ys'" "length ys' = length xs"
    by (cases ys) auto
  from Cons.prems(1) obtain l2 where
    l: "Iter_next l = Some (Inr (Yielded x), l2)" and dl: "yields l2 xs l1"
    by (auto simp: yields_Cons)
  from Cons.prems(3) ys obtain r2 where
    r: "Iter_next r = Some (Inr (Yielded y), r2)" and dr: "drains r2 ys' r'"
    by (auto simp: drains_Cons)
  from Cons.IH[OF dl Cons.prems(2) dr ys(2)] l r ys show ?case
    by (simp add: drains_Cons next_zip_at generator_next_def zip_loop_def)
qed

lemma next_zip_start:
  "Iter_next (Iter_zip right this) = Iter_next (zip_at (SuspendedYield False (this, right)))"
  by (simp add: Iter_zip_at next_zip_at generator_next_def)

subsection \<open>flat on a finite sequence of arrays\<close>

lemma next_flat_at:
  "Iter_next (flat_at g) =
     map_option (\<lambda>(r, g'). (r, flat_at g')) (generator_next (flat_loop []) flat_loop g)"
  by (auto simp: Iter_next_def flat_at_def split: option.splits)

lemma flat_drains_aux:
  "drains it xss it' \<Longrightarrow>
   drains (flat_at (SuspendedYield rest it)) (rest @ concat xss) (flat_at (Completed it'))"
proof (induction xss arbitrary: it rest)
  case Nil
  then have n: "Iter_next it = Some (Inr Finished, it')"
    by (simp add: drains_Nil)
  show ?case
  proof (induction rest)
    case Nil
    from n show ?case
      by (simp add: drains_Nil next_flat_at generator_next_def, subst flat_loop.simps) simp
  next
    case (Cons v rest)
    then show ?case
      by (simp add: drains_Cons next_flat_at generator_next_def, subst flat_loop.simps) simp
  qed
next
  case (Cons xs xss)
  from Cons.prems obtain it1 where
    n: "Iter_next it = Some (Inr (Yielded xs), it1)" and d: "drains it1 xss it'"
    by (auto simp: drains_Cons)
  show ?case
  proof (induction rest)
    case Nil
    have "flat_loop [] it = flat_loop xs it1"
      using n by (subst flat_loop.simps) simp
    then have "Iter_next (flat_at (SuspendedYield [] it)) = Iter_next (flat_at (SuspendedYield xs it1))"
      by (simp add: next_flat_at generator_next_def)
    from drains_cong[OF this] Cons.IH[OF d, of xs] show ?case by simp
  next
    case (Cons v rest)
    then show ?case
      by (simp add: drains_Cons next_flat_at generator_next_def, subst flat_loop.simps) simp
  qed
qed

lemma flat_drains:
  "drains it xss it' \<Longrightarrow> drains (Iter_flat it) (concat xss) (flat_at (Completed it'))"
proof -
  assume d: "drains it xss it'"
  have "Iter_next (Iter_flat it) = Iter_next (flat_at (SuspendedYield [] it))"
    by (auto simp: Iter_flat_def flat_at_def Iter_next_def generator_next_def split: option.splits)
  from drains_cong[OF this] flat_drains_aux[OF d, of "[]"] show ?thesis by simp
qed

section \<open>The asynchronous wrapper on the same traces\<close>

lemma AsyncIter_next_eq: "AsyncIter_next = Iter_next"
  by (rule ext) (simp add: AsyncIter_next_def Iter_next_def)

subsection \<open>\<^verbatim>\<open>for await\<close> and the terminal loops\<close>

lemma for_await_of_Some:
  "for_await_of body l it = Some y \<Longrightarrow> for_of (settled body) l it = Some y"
  apply (rule for_await_of.raw_induct[rotated, where P = "\<lambda>body l it y. for_of (settled body) l it = Some y"])
   apply assumption
  apply (subst for_of.simps)
  apply (auto simp: settled_def AsyncIter_next_eq split: option.splits prod.splits sum.splits completion.splits)
  done

lemma for_of_settled_Some:
  "for_of sbody l it = Some y \<Longrightarrow> sbody = settled body \<longrightarrow> for_await_of body l it = Some y"
  apply (rule for_of.raw_induct[rotated, where P = "\<lambda>sbody l it y. sbody = settled body \<longrightarrow> for_await_of body l it = Some y"])
   apply assumption
  apply (rule impI)
  apply (subst for_await_of.simps)
  apply (auto simp: settled_def AsyncIter_next_eq split: option.splits prod.splits sum.splits completion.splits)
  done

lemma for_await_of_eq: "for_await_of body l it = for_of (settled body) l it"
proof (cases "for_await_of body l it")
  case None
  show ?thesis
  proof (cases "for_of (settled body) l it")
    case (Some y)
    from for_of_settled_Some[OF this, of body] None show ?thesis by simp
  qed (simp add: None)
next
  case (Some y)
  from for_await_of_Some[OF this] Some show ?thesis by simp
qed

lemma async_loop_generator_eq:
  fixes it :: "('s, 'e, 'a) AsyncIter"
  shows "async_loop_generator body l0 it = loop_generator (settled body) l0 it"
proof -
  have "(for_await_of body :: _ \<Rightarrow> ('s, 'e, 'a) AsyncIter \<Rightarrow> _) = for_of (settled body)"
    by (rule ext, rule ext) (rule for_await_of_eq)
  then show ?thesis
    by (simp add: async_loop_generator_def loop_generator_def)
qed

lemma AsyncIter_reduce_Some:
  "AsyncIter_reduce func a it = Some y \<Longrightarrow> reduce func a it = Some y"
  apply (rule AsyncIter_reduce.raw_induct[rotated, where P = "\<lambda>func a it y. reduce func a it = Some y"])
   apply assumption
  apply (subst reduce.simps)
  apply (auto simp: AsyncIter_next_eq split: option.splits prod.splits sum.splits)
  done

lemma reduce_Some:
  "reduce func a it = Some y \<Longrightarrow> AsyncIter_reduce func a it = Some y"
  apply (rule reduce.raw_induct[rotated, where P = "\<lambda>func a it y. AsyncIter_reduce func a it = Some y"])
   apply assumption
  apply (subst AsyncIter_reduce.simps)
  apply (auto simp: AsyncIter_next_eq split: option.splits prod.splits sum.splits)
  done

lemma AsyncIter_reduce_eq: "AsyncIter_reduce func a it = reduce func a it"
proof (cases "AsyncIter_reduce func a it")
  case None
  show ?thesis
  proof (cases "reduce func a it")
    case (Some y)
    from reduce_Some[OF this] None show ?thesis by simp
  qed (simp add: None)
next
  case (Some y)
  from AsyncIter_reduce_Some[OF this] Some show ?thesis by simp
qed

lemma async_count_loop_Some:
  "async_count_loop c it = Some y \<Longrightarrow> count_loop c it = Some y"
  apply (rule async_count_loop.raw_induct[rotated, where P = "\<lambda>c it y. count_loop c it = Some y"])
   apply assumption
  apply (subst count_loop.simps)
  apply (auto simp: AsyncIter_next_eq split: option.splits prod.splits sum.splits)
  done

lemma count_loop_Some:
  "count_loop c it = Some y \<Longrightarrow> async_count_loop c it = Some y"
  apply (rule count_loop.raw_induct[rotated, where P = "\<lambda>c it y. async_count_loop c it = Some y"])
   apply assumption
  apply (subst async_count_loop.simps)
  apply (auto simp: AsyncIter_next_eq split: option.splits prod.splits sum.splits)
  done

lemma async_count_loop_eq: "async_count_loop c it = count_loop c it"
proof (cases "async_count_loop c it")
  case None
  show ?thesis
  proof (cases "count_loop c it")
    case (Some y)
    from count_loop_Some[OF this] None show ?thesis by simp
  qed (simp add: None)
next
  case (Some y)
  from async_count_loop_Some[OF this] Some show ?thesis by simp
qed

lemma AsyncIter_forEach_Some:
  "AsyncIter_forEach func w it = Some y \<Longrightarrow> forEach func w it = Some y"
  apply (rule AsyncIter_forEach.raw_induct[rotated, where P = "\<lambda>func w it y. forEach func w it = Some y"])
   apply assumption
  apply (subst forEach.simps)
  apply (auto simp: AsyncIter_next_eq split: option.splits prod.splits sum.splits)
  done

lemma forEach_Some:
  "forEach func w it = Some y \<Longrightarrow> AsyncIter_forEach func w it = Some y"
  apply (rule forEach.raw_induct[rotated, where P = "\<lambda>func w it y. AsyncIter_forEach func w it = Some y"])
   apply assumption
  apply (subst AsyncIter_forEach.simps)
  apply (auto simp: AsyncIter_next_eq split: option.splits prod.splits sum.splits)
  done

lemma AsyncIter_forEach_eq: "AsyncIter_forEach func w it = forEach func w it"
proof (cases "AsyncIter_forEach func w it")
  case None
  show ?thesis
  proof (cases "forEach func w it")
    case (Some y)
    from forEach_Some[OF this] None show ?thesis by simp
  qed (simp add: None)
next
  case (Some y)
  from AsyncIter_forEach_Some[OF this] Some show ?thesis by simp
qed

subsection \<open>The loop bodies of async.ts with their awaits done\<close>

lemma async_filter_body_suspending:
  "settled (async_filter_body (suspending predicate)) = filter_body predicate"
  by (rule ext, rule ext)
     (simp add: settled_def async_filter_body_def filter_body_def suspending_def split: sum.splits)

lemma async_filterMap_body_suspending:
  "settled (async_filterMap_body (suspending func)) = filterMap_body func"
  by (rule ext, rule ext)
     (simp add: settled_def async_filterMap_body_def filterMap_body_def suspending_def
           split: sum.splits option.splits)

lemma async_map_body_suspending:
  "settled (async_map_body (suspending func)) = map_body func"
  by (rule ext, rule ext)
     (simp add: settled_def async_map_body_def map_body_def suspending_def split: sum.splits)

lemma async_filterSync_body_settled:
  "settled (async_filterSync_body predicate) = filter_body predicate"
  by (rule ext, rule ext)
     (simp add: settled_def async_filterSync_body_def filter_body_def split: sum.splits)

lemma async_filterMapSync_body_settled:
  "settled (async_filterMapSync_body (\<lambda>x. map_sum id (map_option Fulfilled) (func x))) =
     filterMap_body func"
  by (rule ext, rule ext)
     (simp add: settled_def async_filterMapSync_body_def filterMap_body_def
           split: sum.splits option.splits)

lemma async_filterMapSync_body_plain:
  "settled (async_filterMapSync_body (\<lambda>x. Inr (map_option Fulfilled (f x)))) =
     filterMap_body (\<lambda>x. Inr (f x))"
  by (rule ext, rule ext)
     (simp add: settled_def async_filterMapSync_body_def filterMap_body_def split: option.splits)

lemma async_mapSync_body_settled:
  "settled (async_mapSync_body (\<lambda>x. map_sum id Fulfilled (func x))) = map_body func"
  by (rule ext, rule ext)
     (simp add: settled_def async_mapSync_body_def map_body_def split: sum.splits)

lemma async_mapSync_body_promise:
  "settled (async_mapSync_body (\<lambda>x. Inr (func x))) = settled (async_map_body func)"
  by (rule ext, rule ext)
     (simp add: settled_def async_mapSync_body_def async_map_body_def
           split: sum.splits option.splits)

lemma async_enumerate_body_settled: "settled async_enumerate_body = enumerate_body"
  by (rule ext, rule ext) (simp add: settled_def async_enumerate_body_def enumerate_body_def)

lemma async_take_body_settled: "settled (async_take_body limit) = take_body limit"
  by (rule ext, rule ext) (simp add: settled_def async_take_body_def take_body_def Let_def)

lemma async_skip_body_settled: "settled (async_skip_body items) = skip_body items"
  by (rule ext, rule ext) (simp add: settled_def async_skip_body_def skip_body_def Let_def)

subsection \<open>chain and zip of async.ts\<close>

lemma AsyncIter_chain_at: "AsyncIter_chain others it = async_chain_at (SuspendedStart (it, others))"
  by (simp add: AsyncIter_chain_def async_chain_at_def)

lemma next_async_chain_at:
  "Iter_next (async_chain_at g) =
     map_option (\<lambda>(r, g'). (r, async_chain_at g')) (generator_next async_chain_iter async_chain_resume g)"
  by (auto simp: Iter_next_def async_chain_at_def split: option.splits)

lemma async_chain_delegate:
  "drains n ys n' \<Longrightarrow>
   drains (async_chain_at (SuspendedYield (Some (Suc (length before))) (it, before @ n' # rest))) zs fin \<Longrightarrow>
   drains (async_chain_at (SuspendedYield (Some (length before)) (it, before @ n # rest))) (ys @ zs) fin"
proof (induction ys arbitrary: n)
  case Nil
  then have n: "Iter_next n = Some (Inr Finished, n')"
    by (simp add: drains_Nil)
  have "Iter_next (async_chain_at (SuspendedYield (Some (length before)) (it, before @ n # rest))) =
        Iter_next (async_chain_at (SuspendedYield (Some (Suc (length before))) (it, before @ n' # rest)))"
    using n by (simp add: next_async_chain_at generator_next_def async_chain_resume_def AsyncIter_next_eq Symbol_asyncIterator_def)
  from drains_cong[OF this] Nil.prems(2) show ?case by simp
next
  case (Cons y ys)
  from Cons.prems(1) obtain n1 where
    n: "Iter_next n = Some (Inr (Yielded y), n1)" and d: "drains n1 ys n'"
    by (auto simp: drains_Cons)
  from Cons.IH[OF d Cons.prems(2)] n show ?case
    by (simp add: drains_Cons next_async_chain_at generator_next_def async_chain_resume_def AsyncIter_next_eq Symbol_asyncIterator_def)
qed

lemma async_chain_others:
  "drains_all after yss after' \<Longrightarrow>
   drains (async_chain_at (SuspendedYield (Some (length before)) (it, before @ after))) (concat yss)
     (async_chain_at (Completed (it, before @ after')))"
proof (induction after yss after' arbitrary: before rule: drains_all.induct)
  case 1
  then show ?case
    by (simp add: drains_Nil next_async_chain_at generator_next_def async_chain_resume_def)
next
  case (2 n rest ys yss n' rest')
  then have d: "drains n ys n'" and ds: "drains_all rest yss rest'"
    by simp_all
  have "drains (async_chain_at (SuspendedYield (Some (length (before @ [n']))) (it, (before @ [n']) @ rest)))
          (concat yss) (async_chain_at (Completed (it, (before @ [n']) @ rest')))"
    by (rule "2.IH"[OF ds])
  then have "drains (async_chain_at (SuspendedYield (Some (Suc (length before))) (it, before @ n' # rest)))
          (concat yss) (async_chain_at (Completed (it, before @ n' # rest')))"
    by simp
  from async_chain_delegate[OF d this] show ?case by simp
qed simp_all

lemma async_chain_receiver:
  "drains it xs it' \<Longrightarrow>
   drains (async_chain_at (SuspendedYield (Some 0) (it', others))) zs fin \<Longrightarrow>
   drains (async_chain_at (SuspendedYield None (it, others))) (xs @ zs) fin"
proof (induction xs arbitrary: it)
  case Nil
  then have n: "Iter_next it = Some (Inr Finished, it')"
    by (simp add: drains_Nil)
  have "Iter_next (async_chain_at (SuspendedYield None (it, others))) =
        Iter_next (async_chain_at (SuspendedYield (Some 0) (it', others)))"
    using n by (simp add: next_async_chain_at generator_next_def async_chain_resume_def
        async_chain_iter_def AsyncIter_next_eq Symbol_asyncIterator_def)
  from drains_cong[OF this] Nil.prems(2) show ?case by simp
next
  case (Cons x xs)
  from Cons.prems(1) obtain it1 where
    n: "Iter_next it = Some (Inr (Yielded x), it1)" and d: "drains it1 xs it'"
    by (auto simp: drains_Cons)
  from Cons.IH[OF d Cons.prems(2)] n show ?case
    by (simp add: drains_Cons next_async_chain_at generator_next_def async_chain_resume_def
        async_chain_iter_def AsyncIter_next_eq Symbol_asyncIterator_def)
qed

lemma async_chain_drains:
  assumes "drains it xs it'" and "drains_all others yss others'"
  shows "drains (AsyncIter_chain others it) (xs @ concat yss) (async_chain_at (Completed (it', others')))"
proof -
  have "drains (async_chain_at (SuspendedYield (Some 0) (it', others))) (concat yss)
          (async_chain_at (Completed (it', others')))"
    using async_chain_others[OF assms(2), of "[]" it'] by simp
  from async_chain_receiver[OF assms(1) this]
  have "drains (async_chain_at (SuspendedYield None (it, others))) (xs @ concat yss)
          (async_chain_at (Completed (it', others')))" .
  moreover have "Iter_next (AsyncIter_chain others it) =
                 Iter_next (async_chain_at (SuspendedYield None (it, others)))"
    by (simp add: AsyncIter_chain_at next_async_chain_at generator_next_def async_chain_resume_def)
  ultimately show ?thesis
    using drains_cong by blast
qed

lemma AsyncIter_zip_at: "AsyncIter_zip right this = async_zip_at (SuspendedStart (this, right))"
  by (simp add: AsyncIter_zip_def async_zip_at_def Symbol_asyncIterator_def)

lemma next_async_zip_at:
  "Iter_next (async_zip_at g) =
     map_option (\<lambda>(r, g'). (r, async_zip_at g')) (generator_next (async_zip_loop False) async_zip_loop g)"
  by (auto simp: Iter_next_def async_zip_at_def split: option.splits)

lemma async_zip_left_ends:
  "drains l xs l' \<Longrightarrow> yields r ys r1 \<Longrightarrow> length ys = length xs \<Longrightarrow>
   Iter_next r1 = Some (Inr rr, r') \<Longrightarrow>
   drains (async_zip_at (SuspendedYield False (l, r))) (zip xs ys) (async_zip_at (Completed (l', r')))"
proof (induction xs arbitrary: l r ys)
  case Nil
  then show ?case
    by (simp add: drains_Nil next_async_zip_at generator_next_def async_zip_loop_def AsyncIter_next_eq Symbol_asyncIterator_def)
next
  case (Cons x xs)
  from Cons.prems(3) obtain y ys' where ys: "ys = y # ys'" "length ys' = length xs"
    by (cases ys) auto
  from Cons.prems(1) obtain l1 where
    l: "Iter_next l = Some (Inr (Yielded x), l1)" and dl: "drains l1 xs l'"
    by (auto simp: drains_Cons)
  from Cons.prems(2) ys obtain r2 where
    r: "Iter_next r = Some (Inr (Yielded y), r2)" and dr: "yields r2 ys' r1"
    by (auto simp: yields_Cons)
  from Cons.IH[OF dl dr ys(2) Cons.prems(4)] l r ys show ?case
    by (simp add: drains_Cons next_async_zip_at generator_next_def async_zip_loop_def AsyncIter_next_eq Symbol_asyncIterator_def)
qed

lemma async_zip_right_ends:
  "yields l xs l1 \<Longrightarrow> Iter_next l1 = Some (Inr lr, l') \<Longrightarrow> drains r ys r' \<Longrightarrow>
   length ys = length xs \<Longrightarrow>
   drains (async_zip_at (SuspendedYield False (l, r))) (zip xs ys) (async_zip_at (Completed (l', r')))"
proof (induction xs arbitrary: l r ys)
  case Nil
  then show ?case
    by (simp add: drains_Nil next_async_zip_at generator_next_def async_zip_loop_def AsyncIter_next_eq Symbol_asyncIterator_def)
next
  case (Cons x xs)
  from Cons.prems(4) obtain y ys' where ys: "ys = y # ys'" "length ys' = length xs"
    by (cases ys) auto
  from Cons.prems(1) obtain l2 where
    l: "Iter_next l = Some (Inr (Yielded x), l2)" and dl: "yields l2 xs l1"
    by (auto simp: yields_Cons)
  from Cons.prems(3) ys obtain r2 where
    r: "Iter_next r = Some (Inr (Yielded y), r2)" and dr: "drains r2 ys' r'"
    by (auto simp: drains_Cons)
  from Cons.IH[OF dl Cons.prems(2) dr ys(2)] l r ys show ?case
    by (simp add: drains_Cons next_async_zip_at generator_next_def async_zip_loop_def AsyncIter_next_eq Symbol_asyncIterator_def)
qed

lemma next_async_zip_start:
  "Iter_next (AsyncIter_zip right this) = Iter_next (async_zip_at (SuspendedYield False (this, right)))"
  by (simp add: AsyncIter_zip_at next_async_zip_at generator_next_def)

lemma async_chain_next_stops_Completed:
  "async_chain_next it before after = Some (r, g) \<Longrightarrow> stops r \<Longrightarrow> \<exists>p. g = Completed p"
  by (induction after arbitrary: before)
     (auto split: option.splits prod.splits sum.splits)

lemma async_chain_iter_stops_Completed:
  "async_chain_iter p = Some (r, g) \<Longrightarrow> stops r \<Longrightarrow> \<exists>p. g = Completed p"
  by (auto simp: async_chain_iter_def split: option.splits prod.splits sum.splits
           dest: async_chain_next_stops_Completed)

lemma async_zip_loop_stops_Completed:
  "async_zip_loop d p = Some (r, g) \<Longrightarrow> stops r \<Longrightarrow> \<exists>p. g = Completed p"
  by (auto simp: async_zip_loop_def Let_def split: option.splits prod.splits sum.splits if_splits)

lemma async_zip_rejected_pull:
  "AsyncIter_next iter = None \<Longrightarrow> AsyncIter_next rightIter = Some (Inl e, right') \<Longrightarrow>
   async_zip_loop False (iter, rightIter) = Some (Inl e, Completed (iter, right'))"
  "AsyncIter_next iter = Some (Inl e, iter') \<Longrightarrow> AsyncIter_next rightIter = None \<Longrightarrow>
   async_zip_loop False (iter, rightIter) = Some (Inl e, Completed (iter', rightIter))"
  "AsyncIter_next iter = Some (Inl e, iter') \<Longrightarrow> AsyncIter_next rightIter = Some (r, right') \<Longrightarrow>
   async_zip_loop False (iter, rightIter) = Some (Inl e, Completed (iter', right'))"
  by (simp_all add: async_zip_loop_def)

section \<open>Wrappers over finite parents\<close>

lemma loop_generator_in: "(loop_generator body l0 it)\<lparr>inner := g\<rparr> = loop_at body l0 g"
  by (simp add: loop_generator_def loop_at_def)

lemma loop_generator_ends_parent:
  assumes "ends it xs r it'" and "stops r" and "loop_locals body l0 xs = Some l'"
  shows "ends (loop_generator body l0 it) (loop_out body l0 xs) (stop_as r)
           ((loop_generator body l0 it)\<lparr>inner := Completed it'\<rparr>)"
proof -
  have "ends (loop_at body l0 (SuspendedYield l0 it)) (loop_out body l0 xs) (stop_as r)
          (loop_at body l0 (Completed it'))"
    by (rule loop_ends_parent[OF assms])
  moreover have "Iter_next (loop_generator body l0 it) =
                 Iter_next (loop_at body l0 (SuspendedYield l0 it))"
    by (rule next_loop_start)
  ultimately show ?thesis
    by (simp add: loop_generator_in ends_cong[of "loop_generator body l0 it" "loop_at body l0 (SuspendedYield l0 it)"])
qed

lemma loop_generator_drains:
  assumes "drains it xs it'" and "loop_locals body l0 xs = Some l'"
  shows "drains (loop_generator body l0 it) (loop_out body l0 xs)
           ((loop_generator body l0 it)\<lparr>inner := Completed it'\<rparr>)"
proof -
  have "ends it xs (Inr Finished) it'"
    using assms(1) by (simp add: drains_ends)
  from loop_generator_ends_parent[OF this _ assms(2)] show ?thesis
    by (simp add: drains_ends)
qed

lemma loop_generator_ends_body:
  assumes "yields it xs it1" and "Iter_next it1 = Some (Inr (Yielded x), it')"
    and "loop_locals body l0 xs = Some l'" and "body l' x = Some c" and "completion_end c = Some r"
  shows "ends (loop_generator body l0 it) (loop_out body l0 xs) r
           ((loop_generator body l0 it)\<lparr>inner := Completed it'\<rparr>)"
proof -
  have "ends (loop_at body l0 (SuspendedYield l0 it)) (loop_out body l0 xs) r
          (loop_at body l0 (Completed it'))"
    by (rule loop_ends_body[OF assms])
  moreover have "Iter_next (loop_generator body l0 it) =
                 Iter_next (loop_at body l0 (SuspendedYield l0 it))"
    by (rule next_loop_start)
  ultimately show ?thesis
    by (simp add: loop_generator_in ends_cong[of "loop_generator body l0 it" "loop_at body l0 (SuspendedYield l0 it)"])
qed

lemma loop_generator_collect:
  assumes "drains it xs it'" and "loop_locals body l0 xs = Some l'"
  shows "collect (loop_generator body l0 it) =
           Some (Inr (loop_out body l0 xs), (loop_generator body l0 it)\<lparr>inner := Completed it'\<rparr>)"
  by (rule collect_drains[OF loop_generator_drains[OF assms]])

lemma AsyncIter_collect_eq: "AsyncIter_collect = collect"
  by (rule ext) (simp add: AsyncIter_collect_def AsyncIter_reduce_eq collect_def)

lemma async_filterMap_body_Fulfilled:
  "settled (async_filterMap_body (\<lambda>x. Fulfilled (f x))) = filterMap_body (\<lambda>x. Inr (f x))"
  by (rule ext, rule ext)
     (simp add: settled_def async_filterMap_body_def filterMap_body_def split: option.splits)

lemma Iter_chain_in: "(Iter_chain others it)\<lparr>inner := g\<rparr> = chain_at g"
  by (simp add: Iter_chain_def chain_at_def)

lemma AsyncIter_chain_in: "(AsyncIter_chain others it)\<lparr>inner := g\<rparr> = async_chain_at g"
  by (simp add: AsyncIter_chain_def async_chain_at_def)

subsection \<open>take and zip in terms of the wrappers\<close>

lemma ends_snoc:
  "ends it xs r it' = (\<exists>it1. yields it xs it1 \<and> Iter_next it1 = Some (r, it'))"
  using ends_append[of it xs "[]" r it'] by (simp add: ends_Nil)

lemma drains_take_less:
  assumes "drains it xs it'" and "k < length xs"
  shows "\<exists>it1 it2. yields it (take k xs) it1 \<and> Iter_next it1 = Some (Inr (Yielded (xs ! k)), it2)"
proof -
  have "xs = take k xs @ xs ! k # drop (Suc k) xs"
    using assms(2) by (simp add: id_take_nth_drop)
  then have "drains it (take k xs @ xs ! k # drop (Suc k) xs) it'"
    using assms(1) by simp
  then show ?thesis
    by (auto simp: drains_append drains_Cons)
qed

lemma Iter_zip_in: "(Iter_zip right this)\<lparr>inner := g\<rparr> = zip_at g"
  by (simp add: Iter_zip_def zip_at_def)

lemma AsyncIter_zip_in: "(AsyncIter_zip right this)\<lparr>inner := g\<rparr> = async_zip_at g"
  by (simp add: AsyncIter_zip_def async_zip_at_def)

lemma take_collect_short:
  fixes it :: "('s, 'e, 'a) Iter"
  assumes "drains it xs it'" and "length xs \<le> k"
  shows "collect (Iter_take (int k) it) =
           Some (Inr xs, (Iter_take (int k) it)\<lparr>inner := Completed it'\<rparr>)"
proof -
  have "loop_locals (take_body (int k) :: int \<Rightarrow> 'a \<Rightarrow> (int, 'e, 'a) completion option) 0 xs
          = Some (0 + int (length xs)) \<and>
        loop_out (take_body (int k) :: int \<Rightarrow> 'a \<Rightarrow> (int, 'e, 'a) completion option) 0 xs = xs"
    by (rule take_body_list) (use assms(2) in simp)
  then have b: "loop_locals (take_body (int k) :: int \<Rightarrow> 'a \<Rightarrow> (int, 'e, 'a) completion option) 0 xs
          = Some (int (length xs))"
    and o: "loop_out (take_body (int k) :: int \<Rightarrow> 'a \<Rightarrow> (int, 'e, 'a) completion option) 0 xs = xs"
    by simp_all
  from loop_generator_collect[OF assms(1) b] show ?thesis
    by (simp add: o Iter_take_def)
qed

lemma take_ends_long:
  fixes it :: "('s, 'e, 'a) Iter"
  assumes "yields it xs it1" and "Iter_next it1 = Some (Inr (Yielded x), it')" and "length xs = k"
  shows "drains (Iter_take (int k) it) xs ((Iter_take (int k) it)\<lparr>inner := Completed it'\<rparr>)"
proof -
  have "loop_locals (take_body (int k) :: int \<Rightarrow> 'a \<Rightarrow> (int, 'e, 'a) completion option) 0 xs
          = Some (0 + int (length xs)) \<and>
        loop_out (take_body (int k) :: int \<Rightarrow> 'a \<Rightarrow> (int, 'e, 'a) completion option) 0 xs = xs"
    by (rule take_body_list) (use assms(3) in simp)
  then have b: "loop_locals (take_body (int k) :: int \<Rightarrow> 'a \<Rightarrow> (int, 'e, 'a) completion option) 0 xs
          = Some (int k)"
    and o: "loop_out (take_body (int k) :: int \<Rightarrow> 'a \<Rightarrow> (int, 'e, 'a) completion option) 0 xs = xs"
    using assms(3) by simp_all
  have c: "take_body (int k) (int k) x = Some (Break :: (int, 'e, 'a) completion)"
    by (simp add: take_body_def)
  have "ends (loop_generator (take_body (int k)) 0 it)
          (loop_out (take_body (int k) :: int \<Rightarrow> 'a \<Rightarrow> (int, 'e, 'a) completion option) 0 xs)
          (Inr Finished)
          ((loop_generator (take_body (int k)) 0 it)\<lparr>inner := Completed it'\<rparr>)"
    by (rule loop_generator_ends_body[OF assms(1,2) b c]) simp
  then show ?thesis
    by (simp add: o Iter_take_def drains_ends)
qed

lemma take_collect_long:
  fixes it :: "('s, 'e, 'a) Iter"
  assumes "yields it xs it1" and "Iter_next it1 = Some (Inr (Yielded x), it')" and "length xs = k"
  shows "collect (Iter_take (int k) it) =
           Some (Inr xs, (Iter_take (int k) it)\<lparr>inner := Completed it'\<rparr>)"
  by (rule collect_drains[OF take_ends_long[OF assms]])

lemma AsyncIter_take_eq: "AsyncIter_take = Iter_take"
  by (rule ext, rule ext)
     (simp add: AsyncIter_take_def Iter_take_def async_loop_generator_eq async_take_body_settled)

lemma zip_ends_collect:
  fixes l :: "('s, 'e, 'a) Iter" and r :: "('t, 'e, 'a) Iter"
  assumes "ends l xs (Inr rl) l'" and "ends r ys (Inr rr) r'" and "length xs = length ys"
    and "rl = Finished \<or> rr = Finished"
  shows "drains (Iter_zip r l) (zip xs ys) ((Iter_zip r l)\<lparr>inner := Completed (l', r')\<rparr>)"
proof -
  from assms(1) obtain l1 where l: "yields l xs l1" "Iter_next l1 = Some (Inr rl, l')"
    by (auto simp: ends_snoc)
  from assms(2) obtain r1 where r: "yields r ys r1" "Iter_next r1 = Some (Inr rr, r')"
    by (auto simp: ends_snoc)
  have "drains (zip_at (SuspendedYield False (l, r))) (zip xs ys) (zip_at (Completed (l', r')))"
  proof (cases "rl = Finished")
    case True
    with l have "drains l xs l'"
      by (auto simp: drains_ends ends_snoc)
    from zip_left_ends[OF this r(1) _ r(2)] assms(3) show ?thesis by simp
  next
    case False
    with assms(4) r have "drains r ys r'"
      by (auto simp: drains_ends ends_snoc)
    from zip_right_ends[OF l(1) l(2) this] assms(3) show ?thesis by simp
  qed
  moreover have "Iter_next (Iter_zip r l) = Iter_next (zip_at (SuspendedYield False (l, r)))"
    by (rule next_zip_start)
  ultimately show ?thesis
    by (simp add: Iter_zip_in drains_cong[of "Iter_zip r l" "zip_at (SuspendedYield False (l, r))"])
qed

lemma async_zip_ends_collect:
  fixes l :: "('s, 'e, 'a) Iter" and r :: "('t, 'e, 'a) Iter"
  assumes "ends l xs (Inr rl) l'" and "ends r ys (Inr rr) r'" and "length xs = length ys"
    and "rl = Finished \<or> rr = Finished"
  shows "drains (AsyncIter_zip r l) (zip xs ys) ((AsyncIter_zip r l)\<lparr>inner := Completed (l', r')\<rparr>)"
proof -
  from assms(1) obtain l1 where l: "yields l xs l1" "Iter_next l1 = Some (Inr rl, l')"
    by (auto simp: ends_snoc)
  from assms(2) obtain r1 where r: "yields r ys r1" "Iter_next r1 = Some (Inr rr, r')"
    by (auto simp: ends_snoc)
  have "drains (async_zip_at (SuspendedYield False (l, r))) (zip xs ys) (async_zip_at (Completed (l', r')))"
  proof (cases "rl = Finished")
    case True
    with l have "drains l xs l'"
      by (auto simp: drains_ends ends_snoc)
    from async_zip_left_ends[OF this r(1) _ r(2)] assms(3) show ?thesis by simp
  next
    case False
    with assms(4) r have "drains r ys r'"
      by (auto simp: drains_ends ends_snoc)
    from async_zip_right_ends[OF l(1) l(2) this] assms(3) show ?thesis by simp
  qed
  moreover have "Iter_next (AsyncIter_zip r l) = Iter_next (async_zip_at (SuspendedYield False (l, r)))"
    by (rule next_async_zip_start)
  ultimately show ?thesis
    by (simp add: AsyncIter_zip_in drains_cong[of "AsyncIter_zip r l" "async_zip_at (SuspendedYield False (l, r))"])
qed

text \<open>A finite sequence cut at the length of the shorter of two.\<close>

lemma drains_cut:
  assumes "drains it xs it'" and "k \<le> length xs"
  shows "\<exists>r it1. ends it (take k xs) (Inr r) it1 \<and> (k = length xs \<longrightarrow> r = Finished \<and> it1 = it')"
proof (cases "k = length xs")
  case True
  with assms(1) show ?thesis
    by (auto simp: drains_ends)
next
  case False
  with assms(2) have "k < length xs" by simp
  from drains_take_less[OF assms(1) this] False show ?thesis
    by (auto simp: ends_snoc)
qed

lemma zip_finite_collect:
  fixes l :: "('s, 'e, 'a) Iter" and r :: "('t, 'e, 'a) Iter"
  assumes "drains l xs l'" and "drains r ys r'"
  shows "\<exists>rl rr l1 r1.
           ends l (take (min (length xs) (length ys)) xs) (Inr rl) l1 \<and>
           ends r (take (min (length xs) (length ys)) ys) (Inr rr) r1 \<and>
           collect (Iter_zip r l) = Some (Inr (zip xs ys), (Iter_zip r l)\<lparr>inner := Completed (l1, r1)\<rparr>) \<and>
           AsyncIter_collect (AsyncIter_zip r l) =
             Some (Inr (zip xs ys), (AsyncIter_zip r l)\<lparr>inner := Completed (l1, r1)\<rparr>)"
proof -
  let ?k = "min (length xs) (length ys)"
  from drains_cut[OF assms(1), of ?k] obtain rl l1 where
    l: "ends l (take ?k xs) (Inr rl) l1" "?k = length xs \<longrightarrow> rl = Finished"
    by auto
  from drains_cut[OF assms(2), of ?k] obtain rr r1 where
    r: "ends r (take ?k ys) (Inr rr) r1" "?k = length ys \<longrightarrow> rr = Finished"
    by auto
  have f: "rl = Finished \<or> rr = Finished"
    using l(2) r(2) by (cases "length xs \<le> length ys") (simp_all add: min_def)
  have len: "length (take ?k xs) = length (take ?k ys)"
    by simp
  have z: "zip (take ?k xs) (take ?k ys) = zip xs ys"
    by (metis take_zip length_zip take_all order_refl)
  from collect_drains[OF zip_ends_collect[OF l(1) r(1) len f]]
       collect_drains[OF async_zip_ends_collect[OF l(1) r(1) len f]] l(1) r(1)
  show ?thesis
    unfolding z AsyncIter_collect_eq by blast
qed

lemma ends_endless:
  "ends (endless g) (map g [0..<k]) (Inr (Yielded (g k))) ((endless g)\<lparr>inner := Suc k\<rparr>)"
proof -
  have "Iter_next (advanced (endless g) k) = Some (Inr (Yielded (g k)), advanced (endless g) (Suc k))"
    by (simp add: endless_def next_source)
  with yields_endless[of g k] show ?thesis
    by (auto simp: ends_snoc advanced_def)
qed


lemma drains_of_list': "drains (of_list xs) xs ((of_list xs)\<lparr>inner := Suc (length xs)\<rparr>)"
  using drains_of_list[of xs] by (simp add: advanced_def)

lemma inner_zip_at: "inner (zip_at g) = g"
  by (simp add: zip_at_def)

lemma next_zip_step:
  assumes "Iter_next l = Some (Inr a, l1)" and "Iter_next r = Some (b, r1)"
  shows "map_option (captured \<circ> inner \<circ> snd) (Iter_next (zip_at (SuspendedYield False (l, r)))) =
           Some (l1, r1)"
  using assms
  by (cases b)
     (auto simp: next_zip_at generator_next_def zip_loop_def inner_zip_at Let_def split: option.splits)

subsection \<open>Wrappers that stopped stay exhausted\<close>

lemma loop_latch:
  assumes "Iter_next ((loop_generator body l0 it)\<lparr>inner := g\<rparr>) = Some (r, w)" and "stops r"
  shows "pull_n n w = Some (replicate n (Inr Finished), w)"
proof (rule generator_latch[of "for_of body l0" "for_of body" g r w])
  show "Iter_next \<lparr>inner = g, inner_next = generator_next (for_of body l0) (for_of body)\<rparr> = Some (r, w)"
    using assms(1) by (simp add: loop_generator_def)
qed (auto dest: for_of_stops_Completed simp: assms(2))

lemma chain_latch:
  assumes "Iter_next ((Iter_chain others it)\<lparr>inner := g\<rparr>) = Some (r, w)" and "stops r"
  shows "pull_n n w = Some (replicate n (Inr Finished), w)"
proof (rule generator_latch[of chain_iter chain_resume g r w])
  show "Iter_next \<lparr>inner = g, inner_next = generator_next chain_iter chain_resume\<rparr> = Some (r, w)"
    using assms(1) by (simp add: Iter_chain_def)
qed (auto dest: chain_iter_stops_Completed chain_next_stops_Completed
       simp: assms(2) chain_resume_def split: option.splits)

lemma async_chain_latch:
  assumes "Iter_next ((AsyncIter_chain others it)\<lparr>inner := g\<rparr>) = Some (r, w)" and "stops r"
  shows "pull_n n w = Some (replicate n (Inr Finished), w)"
proof (rule generator_latch[of async_chain_iter async_chain_resume g r w])
  show "Iter_next \<lparr>inner = g, inner_next = generator_next async_chain_iter async_chain_resume\<rparr> = Some (r, w)"
    using assms(1) by (simp add: AsyncIter_chain_def)
qed (auto dest: async_chain_iter_stops_Completed async_chain_next_stops_Completed
       simp: assms(2) async_chain_resume_def split: option.splits)

lemma zip_latch:
  assumes "Iter_next ((Iter_zip right it)\<lparr>inner := g\<rparr>) = Some (r, w)" and "stops r"
  shows "pull_n n w = Some (replicate n (Inr Finished), w)"
proof (rule generator_latch[of "zip_loop False" zip_loop g r w])
  show "Iter_next \<lparr>inner = g, inner_next = generator_next (zip_loop False) zip_loop\<rparr> = Some (r, w)"
    using assms(1) by (simp add: Iter_zip_def)
qed (auto dest: zip_loop_stops_Completed simp: assms(2))

lemma async_zip_latch:
  assumes "Iter_next ((AsyncIter_zip right it)\<lparr>inner := g\<rparr>) = Some (r, w)" and "stops r"
  shows "pull_n n w = Some (replicate n (Inr Finished), w)"
proof (rule generator_latch[of "async_zip_loop False" async_zip_loop g r w])
  show "Iter_next \<lparr>inner = g, inner_next = generator_next (async_zip_loop False) async_zip_loop\<rparr> = Some (r, w)"
    using assms(1) by (simp add: AsyncIter_zip_def)
qed (auto dest: async_zip_loop_stops_Completed simp: assms(2))

lemma flat_latch:
  assumes "Iter_next ((Iter_flat it)\<lparr>inner := g\<rparr>) = Some (r, w)" and "stops r"
  shows "pull_n n w = Some (replicate n (Inr Finished), w)"
proof (rule generator_latch[of "flat_loop []" flat_loop g r w])
  show "Iter_next \<lparr>inner = g, inner_next = generator_next (flat_loop []) flat_loop\<rparr> = Some (r, w)"
    using assms(1) by (simp add: Iter_flat_def)
qed (auto dest: flat_loop_stops_Completed simp: assms(2))

lemma repeatWith_latch:
  assumes "Iter_next ((repeatWith func)\<lparr>inner := g\<rparr>) = Some (r, w)" and "stops r"
  shows "pull_n n w = Some (replicate n (Inr Finished), w)"
proof (rule generator_latch[of "repeatWith_loop func 0" "repeatWith_loop func" g r w])
  show "Iter_next \<lparr>inner = g, inner_next = generator_next (repeatWith_loop func 0) (repeatWith_loop func)\<rparr> = Some (r, w)"
    using assms(1) by (simp add: repeatWith_def)
qed (auto dest: repeatWith_loop_stops_Completed simp: assms(2))

lemma stops_Finished: "stops (Inr Finished)"
  by simp

subsection \<open>Failing functions\<close>






lemma AsyncIter_count_eq: "AsyncIter_count = count"
  by (rule ext) (simp add: AsyncIter_count_def count_def async_count_loop_eq)

subsection \<open>A parent that fails\<close>

lemma generator_completed_stays:
  "pull_n n \<lparr>inner = Completed p, inner_next = generator_next start resume\<rparr> =
     Some (replicate n (Inr Finished), \<lparr>inner = Completed p, inner_next = generator_next start resume\<rparr>)"
  by (induction n) (simp_all add: Iter_next_def generator_next_def)

lemma chain_completed_stays:
  "pull_n n ((Iter_chain others it)\<lparr>inner := Completed p\<rparr>) =
     Some (replicate n (Inr Finished), (Iter_chain others it)\<lparr>inner := Completed p\<rparr>)"
  using generator_completed_stays[of n p chain_iter chain_resume] by (simp add: Iter_chain_def)

lemma zip_completed_stays:
  "pull_n n ((Iter_zip right it)\<lparr>inner := Completed p\<rparr>) =
     Some (replicate n (Inr Finished), (Iter_zip right it)\<lparr>inner := Completed p\<rparr>)"
  using generator_completed_stays[of n p "zip_loop False" zip_loop] by (simp add: Iter_zip_def)

lemma flat_completed_stays:
  "pull_n n ((Iter_flat it)\<lparr>inner := Completed p\<rparr>) =
     Some (replicate n (Inr Finished), (Iter_flat it)\<lparr>inner := Completed p\<rparr>)"
  using generator_completed_stays[of n p "flat_loop []" flat_loop] by (simp add: Iter_flat_def)

lemma async_chain_completed_stays:
  "pull_n n ((AsyncIter_chain others it)\<lparr>inner := Completed p\<rparr>) =
     Some (replicate n (Inr Finished), (AsyncIter_chain others it)\<lparr>inner := Completed p\<rparr>)"
  using generator_completed_stays[of n p async_chain_iter async_chain_resume]
  by (simp add: AsyncIter_chain_def)

lemma async_zip_completed_stays:
  "pull_n n ((AsyncIter_zip right it)\<lparr>inner := Completed p\<rparr>) =
     Some (replicate n (Inr Finished), (AsyncIter_zip right it)\<lparr>inner := Completed p\<rparr>)"
  using generator_completed_stays[of n p "async_zip_loop False" async_zip_loop]
  by (simp add: AsyncIter_zip_def)











lemma zip_finite_drains:
  fixes l :: "('s, 'e, 'a) Iter" and r :: "('t, 'e, 'a) Iter"
  assumes "drains l xs l'" and "drains r ys r'"
  shows "\<exists>l1 r1.
           drains (Iter_zip r l) (zip xs ys) ((Iter_zip r l)\<lparr>inner := Completed (l1, r1)\<rparr>) \<and>
           drains (AsyncIter_zip r l) (zip xs ys) ((AsyncIter_zip r l)\<lparr>inner := Completed (l1, r1)\<rparr>)"
proof -
  let ?k = "min (length xs) (length ys)"
  from drains_cut[OF assms(1), of ?k] obtain rl l1 where
    l: "ends l (take ?k xs) (Inr rl) l1" "?k = length xs \<longrightarrow> rl = Finished"
    by auto
  from drains_cut[OF assms(2), of ?k] obtain rr r1 where
    r: "ends r (take ?k ys) (Inr rr) r1" "?k = length ys \<longrightarrow> rr = Finished"
    by auto
  have f: "rl = Finished \<or> rr = Finished"
    using l(2) r(2) by (cases "length xs \<le> length ys") (simp_all add: min_def)
  have len: "length (take ?k xs) = length (take ?k ys)"
    by simp
  have z: "zip (take ?k xs) (take ?k ys) = zip xs ys"
    by (metis take_zip length_zip take_all order_refl)
  from zip_ends_collect[OF l(1) r(1) len f] async_zip_ends_collect[OF l(1) r(1) len f]
  show ?thesis
    unfolding z by blast
qed




section \<open>The claims\<close>

text \<open>
  C1.  The wrapper a combinator returns holds a generator that is suspended at its start
  and has captured the receiver and the argument sequences as they were passed: building
  it has called \<^verbatim>\<open>next()\<close> on none of them.  This holds for the nine combinators of \<^verbatim>\<open>Iter\<close>
  and the eleven of \<^verbatim>\<open>AsyncIter\<close>, and for wrappers built on wrappers: under
  \<^verbatim>\<open>map(...).take(...)\<close> a raw source is still at zero calls.  The first pull of that
  wrapper is what calls the source, once.
\<close>

theorem combinators_pull_nothing:
  "inner (Iter_filter predicate this) = SuspendedStart this
   \<and> inner (Iter_filterMap func this) = SuspendedStart this
   \<and> inner (Iter_map func' this) = SuspendedStart this
   \<and> inner (Iter_chain others this) = SuspendedStart (this, others)
   \<and> inner (Iter_zip right this) = SuspendedStart (this, right)
   \<and> inner (Iter_enumerate this) = SuspendedStart this
   \<and> inner (Iter_take limit this) = SuspendedStart this
   \<and> inner (Iter_skip items this) = SuspendedStart this
   \<and> inner (Iter_flat nested) = SuspendedStart nested
   \<and> inner (AsyncIter_filter apredicate this) = SuspendedStart this
   \<and> inner (AsyncIter_filterSync predicate this) = SuspendedStart this
   \<and> inner (AsyncIter_filterMap afunc this) = SuspendedStart this
   \<and> inner (AsyncIter_filterMapSync sfunc this) = SuspendedStart this
   \<and> inner (AsyncIter_map afunc' this) = SuspendedStart this
   \<and> inner (AsyncIter_mapSync sfunc' this) = SuspendedStart this
   \<and> inner (AsyncIter_chain others this) = SuspendedStart (this, others)
   \<and> inner (AsyncIter_zip right this) = SuspendedStart (this, right)
   \<and> inner (AsyncIter_enumerate this) = SuspendedStart this
   \<and> inner (AsyncIter_take limit this) = SuspendedStart this
   \<and> inner (AsyncIter_skip items this) = SuspendedStart this
   \<and> inner (captured (inner (captured (inner
         (Iter_take limit (Iter_map func' (source answers))))))) = 0
   \<and> map_option (\<lambda>(r, w). (r, inner (captured (inner (captured (inner w))))))
         (Iter_next (Iter_take 1 (Iter_map (\<lambda>x. Inr (x + 1))
            (source (\<lambda>n. Inr (Yielded (int n))) :: (nat, 'e, int) Iter)))) =
       Some (Inr (Yielded 1), 1)"
  by (simp add: Iter_filter_def Iter_filterMap_def Iter_map_def Iter_chain_def Iter_zip_def
      Iter_enumerate_def Iter_take_def Iter_skip_def Iter_flat_def AsyncIter_filter_def
      AsyncIter_filterSync_def AsyncIter_filterMap_def AsyncIter_filterMapSync_def AsyncIter_map_def
      AsyncIter_mapSync_def AsyncIter_chain_def AsyncIter_zip_def AsyncIter_enumerate_def
      AsyncIter_take_def AsyncIter_skip_def loop_generator_def async_loop_generator_def
      Symbol_iterator_def Symbol_asyncIterator_def source_def
      Iter_next_def generator_next_def for_of.simps take_body_def map_body_def)

theorem combinators_pull_nothing_witness:
  "inner (Iter_zip (of_list [6, 7 :: int]) (of_list [1, 2 :: int] :: (nat, unit, int) Iter)) =
     SuspendedStart (of_list [1, 2], of_list [6, 7])
   \<and> inner (of_list [1, 2 :: int] :: (nat, unit, int) Iter) = 0
   \<and> inner (of_list [6, 7 :: int] :: (nat, unit, int) Iter) = 0"
proof -
  have "inner (Iter_zip (of_list [6, 7 :: int]) (of_list [1, 2 :: int] :: (nat, unit, int) Iter)) =
     SuspendedStart (of_list [1, 2], of_list [6, 7])"
    by (rule combinators_pull_nothing[THEN conjunct2, THEN conjunct2, THEN conjunct2,
          THEN conjunct2, THEN conjunct1])
  moreover have "inner (of_list [1, 2 :: int] :: (nat, unit, int) Iter) = 0"
    and "inner (of_list [6, 7 :: int] :: (nat, unit, int) Iter) = 0"
    by (simp_all add: of_list_def source_def)
  ultimately show ?thesis
    by simp
qed

text \<open>
  C2 (amended).  Over any parent, and given a function that settles with what the plain
  function returns or throws, the asynchronous \<^verbatim>\<open>filter\<close>, \<^verbatim>\<open>filterMap\<close> and \<^verbatim>\<open>map\<close> are
  wrappers that answer every pull as the synchronous ones do, and so are \<^verbatim>\<open>filterSync\<close>,
  \<^verbatim>\<open>filterMapSync\<close> and \<^verbatim>\<open>mapSync\<close> with a function that returns plain values,
  \<^verbatim>\<open>enumerate\<close>, \<^verbatim>\<open>take\<close> and \<^verbatim>\<open>skip\<close>; \<^verbatim>\<open>mapSync\<close> with a function that returns promises
  is \<^verbatim>\<open>map\<close> with that function, because \<^verbatim>\<open>yield\<close> awaits.  \<^verbatim>\<open>collect\<close>, \<^verbatim>\<open>reduce\<close>, \<^verbatim>\<open>count\<close>
  and \<^verbatim>\<open>forEach\<close> return the same on any wrapper.  These are equalities between the
  loops of async.ts (\<open>for_await_of\<close>, \<open>AsyncIter_reduce\<close>, \<open>async_count_loop\<close>,
  \<open>AsyncIter_forEach\<close>) and those of sync.ts, proved above.  For \<^verbatim>\<open>chain\<close> and \<^verbatim>\<open>zip\<close> the
  agreement holds on finite sequences whose every result carries \<^verbatim>\<open>done\<close>: both
  wrappers then give the same elements pull by pull and end with the same sequences
  drained.  On a result without \<^verbatim>\<open>done\<close> the two \<^verbatim>\<open>chain\<close>s differ: the synchronous one
  hands the result on as it is, the asynchronous one yields its value with
  \<^verbatim>\<open>done: false\<close>.
\<close>

theorem async_wrapper_agrees_with_sync:
  fixes this :: "('s, 'e, 'a) Iter" and others :: "('t, 'e, 'a) Iter list" and right :: "('u, 'e, 'a) Iter"
  shows "AsyncIter_filter (suspending predicate) this = Iter_filter predicate this
   \<and> AsyncIter_filterSync predicate this = Iter_filter predicate this
   \<and> AsyncIter_filterMap (suspending func) this = Iter_filterMap func this
   \<and> AsyncIter_filterMapSync (\<lambda>x. map_sum id (map_option Fulfilled) (func x)) this =
       Iter_filterMap func this
   \<and> AsyncIter_map (suspending func') this = Iter_map func' this
   \<and> AsyncIter_mapSync (\<lambda>x. map_sum id Fulfilled (func' x)) this = Iter_map func' this
   \<and> AsyncIter_mapSync (\<lambda>x. Inr (afunc x)) this = AsyncIter_map afunc this
   \<and> AsyncIter_enumerate this = Iter_enumerate this
   \<and> AsyncIter_take limit this = Iter_take limit this
   \<and> AsyncIter_skip items this = Iter_skip items this
   \<and> AsyncIter_collect this = collect this
   \<and> AsyncIter_reduce rfunc initial this = reduce rfunc initial this
   \<and> AsyncIter_count this = count this
   \<and> AsyncIter_forEach efunc world this = forEach efunc world this
   \<and> (drains this xs this' \<and> drains_all others yss others' \<longrightarrow>
        drains (AsyncIter_chain others this) (xs @ concat yss)
          ((AsyncIter_chain others this)\<lparr>inner := Completed (this', others')\<rparr>)
        \<and> drains (Iter_chain others this) (xs @ concat yss)
            ((Iter_chain others this)\<lparr>inner := Completed (this', others')\<rparr>)
        \<and> AsyncIter_collect (AsyncIter_chain others this) =
            Some (Inr (xs @ concat yss),
                  (AsyncIter_chain others this)\<lparr>inner := Completed (this', others')\<rparr>)
        \<and> collect (Iter_chain others this) =
            Some (Inr (xs @ concat yss),
                  (Iter_chain others this)\<lparr>inner := Completed (this', others')\<rparr>))
   \<and> (drains this xs this' \<and> drains right ys right' \<longrightarrow>
        (\<exists>l1 r1.
           drains (AsyncIter_zip right this) (zip xs ys)
             ((AsyncIter_zip right this)\<lparr>inner := Completed (l1, r1)\<rparr>)
           \<and> drains (Iter_zip right this) (zip xs ys)
               ((Iter_zip right this)\<lparr>inner := Completed (l1, r1)\<rparr>)
           \<and> AsyncIter_collect (AsyncIter_zip right this) =
               Some (Inr (zip xs ys), (AsyncIter_zip right this)\<lparr>inner := Completed (l1, r1)\<rparr>)
           \<and> collect (Iter_zip right this) =
               Some (Inr (zip xs ys), (Iter_zip right this)\<lparr>inner := Completed (l1, r1)\<rparr>)))
   \<and> (Iter_next this = Some (Inr (Unflagged v), this1) \<longrightarrow>
        Iter_next (Iter_chain others this) =
          Some (Inr (Unflagged v),
                (Iter_chain others this)\<lparr>inner := SuspendedYield None (this1, others)\<rparr>)
        \<and> AsyncIter_next (AsyncIter_chain others this) =
            Some (Inr (Yielded v),
                  (AsyncIter_chain others this)\<lparr>inner := SuspendedYield None (this1, others)\<rparr>))"
proof -
  have ch: "drains (AsyncIter_chain others this) (xs @ concat yss)
          ((AsyncIter_chain others this)\<lparr>inner := Completed (this', others')\<rparr>)
        \<and> drains (Iter_chain others this) (xs @ concat yss)
            ((Iter_chain others this)\<lparr>inner := Completed (this', others')\<rparr>)
        \<and> AsyncIter_collect (AsyncIter_chain others this) =
            Some (Inr (xs @ concat yss),
                  (AsyncIter_chain others this)\<lparr>inner := Completed (this', others')\<rparr>)
        \<and> collect (Iter_chain others this) =
            Some (Inr (xs @ concat yss),
                  (Iter_chain others this)\<lparr>inner := Completed (this', others')\<rparr>)"
    if "drains this xs this'" and "drains_all others yss others'"
    using chain_drains[OF that] async_chain_drains[OF that]
      collect_drains[OF chain_drains[OF that]] collect_drains[OF async_chain_drains[OF that]]
    by (simp add: AsyncIter_collect_eq Iter_chain_in AsyncIter_chain_in)
  have zp: "\<exists>l1 r1.
           drains (AsyncIter_zip right this) (zip xs ys)
             ((AsyncIter_zip right this)\<lparr>inner := Completed (l1, r1)\<rparr>)
           \<and> drains (Iter_zip right this) (zip xs ys)
               ((Iter_zip right this)\<lparr>inner := Completed (l1, r1)\<rparr>)
           \<and> AsyncIter_collect (AsyncIter_zip right this) =
               Some (Inr (zip xs ys), (AsyncIter_zip right this)\<lparr>inner := Completed (l1, r1)\<rparr>)
           \<and> collect (Iter_zip right this) =
               Some (Inr (zip xs ys), (Iter_zip right this)\<lparr>inner := Completed (l1, r1)\<rparr>)"
    if "drains this xs this'" and "drains right ys right'"
  proof -
    from zip_finite_drains[OF that] obtain l1 r1 where
      s: "drains (Iter_zip right this) (zip xs ys) ((Iter_zip right this)\<lparr>inner := Completed (l1, r1)\<rparr>)"
      and a: "drains (AsyncIter_zip right this) (zip xs ys)
           ((AsyncIter_zip right this)\<lparr>inner := Completed (l1, r1)\<rparr>)"
      by blast
    from s a collect_drains[OF s] collect_drains[OF a] show ?thesis
      unfolding AsyncIter_collect_eq by blast
  qed
  have un: "Iter_next (Iter_chain others this) =
          Some (Inr (Unflagged v),
                (Iter_chain others this)\<lparr>inner := SuspendedYield None (this1, others)\<rparr>)
        \<and> AsyncIter_next (AsyncIter_chain others this) =
            Some (Inr (Yielded v),
                  (AsyncIter_chain others this)\<lparr>inner := SuspendedYield None (this1, others)\<rparr>)"
    if "Iter_next this = Some (Inr (Unflagged v), this1)"
    using that
    by (simp add: AsyncIter_next_eq Iter_chain_in AsyncIter_chain_in Iter_chain_at
        AsyncIter_chain_at next_chain_at next_async_chain_at generator_next_def chain_iter_def
        async_chain_iter_def Symbol_iterator_def Symbol_asyncIterator_def)
       (simp add: chain_at_def async_chain_at_def)
  have eqs: "AsyncIter_filter (suspending predicate) this = Iter_filter predicate this
   \<and> AsyncIter_filterSync predicate this = Iter_filter predicate this
   \<and> AsyncIter_filterMap (suspending func) this = Iter_filterMap func this
   \<and> AsyncIter_filterMapSync (\<lambda>x. map_sum id (map_option Fulfilled) (func x)) this =
       Iter_filterMap func this
   \<and> AsyncIter_map (suspending func') this = Iter_map func' this
   \<and> AsyncIter_mapSync (\<lambda>x. map_sum id Fulfilled (func' x)) this = Iter_map func' this
   \<and> AsyncIter_mapSync (\<lambda>x. Inr (afunc x)) this = AsyncIter_map afunc this
   \<and> AsyncIter_enumerate this = Iter_enumerate this
   \<and> AsyncIter_take limit this = Iter_take limit this
   \<and> AsyncIter_skip items this = Iter_skip items this
   \<and> AsyncIter_collect this = collect this
   \<and> AsyncIter_reduce rfunc initial this = reduce rfunc initial this
   \<and> AsyncIter_count this = count this
   \<and> AsyncIter_forEach efunc world this = forEach efunc world this"
    by (simp add: AsyncIter_filter_def AsyncIter_filterSync_def AsyncIter_filterMap_def
        AsyncIter_filterMapSync_def AsyncIter_map_def AsyncIter_mapSync_def AsyncIter_enumerate_def
        AsyncIter_take_def AsyncIter_skip_def Iter_filter_def Iter_filterMap_def Iter_map_def
        Iter_enumerate_def Iter_take_def Iter_skip_def AsyncIter_collect_eq AsyncIter_reduce_eq
        AsyncIter_count_eq AsyncIter_forEach_eq async_loop_generator_eq
        async_filter_body_suspending async_filterMap_body_suspending async_map_body_suspending
        async_filterSync_body_settled async_filterMapSync_body_settled async_mapSync_body_settled
        async_mapSync_body_promise async_enumerate_body_settled async_take_body_settled
        async_skip_body_settled)
  show ?thesis
    using eqs ch zp un by blast
qed

theorem async_wrapper_agrees_with_sync_witness:
  "drains (of_list [1, 2, 3 :: int] :: (nat, unit, int) Iter) [1, 2, 3] ((of_list [1, 2, 3])\<lparr>inner := 4\<rparr>)
   \<and> drains (of_list [6, 7 :: int] :: (nat, unit, int) Iter) [6, 7] ((of_list [6, 7])\<lparr>inner := 3\<rparr>)
   \<and> drains_all [of_list [6, 7 :: int] :: (nat, unit, int) Iter] [[6, 7]] [(of_list [6, 7])\<lparr>inner := 3\<rparr>]
   \<and> AsyncIter_collect (AsyncIter_chain [of_list [6, 7]]
        (of_list [1, 2, 3 :: int] :: (nat, unit, int) Iter)) =
       Some (Inr [1, 2, 3, 6, 7],
             (AsyncIter_chain [of_list [6, 7]] (of_list [1, 2, 3]))
               \<lparr>inner := Completed ((of_list [1, 2, 3])\<lparr>inner := 4\<rparr>, [(of_list [6, 7])\<lparr>inner := 3\<rparr>])\<rparr>)
   \<and> collect (Iter_chain [of_list [6, 7]]
        (of_list [1, 2, 3 :: int] :: (nat, unit, int) Iter)) =
       Some (Inr [1, 2, 3, 6, 7],
             (Iter_chain [of_list [6, 7]] (of_list [1, 2, 3]))
               \<lparr>inner := Completed ((of_list [1, 2, 3])\<lparr>inner := 4\<rparr>, [(of_list [6, 7])\<lparr>inner := 3\<rparr>])\<rparr>)
   \<and> map_option fst (AsyncIter_collect (AsyncIter_zip (of_list [6, 7])
        (of_list [1, 2, 3 :: int] :: (nat, unit, int) Iter))) = Some (Inr [(1, 6), (2, 7)])
   \<and> map_option fst (collect (Iter_zip (of_list [6, 7])
        (of_list [1, 2, 3 :: int] :: (nat, unit, int) Iter))) = Some (Inr [(1, 6), (2, 7)])
   \<and> Iter_next (source (\<lambda>n. if n < 2 then Inr (Unflagged (int n + 1)) else Inr Finished)
        :: (nat, unit, int) Iter) =
       Some (Inr (Unflagged 1),
             (source (\<lambda>n. if n < 2 then Inr (Unflagged (int n + 1)) else Inr Finished))\<lparr>inner := 1\<rparr>)
   \<and> Iter_next (Iter_chain ([] :: (nat, unit, int) Iter list)
        (source (\<lambda>n. if n < 2 then Inr (Unflagged (int n + 1)) else Inr Finished)
           :: (nat, unit, int) Iter)) =
       Some (Inr (Unflagged 1),
             (Iter_chain [] (source (\<lambda>n. if n < 2 then Inr (Unflagged (int n + 1)) else Inr Finished)))
               \<lparr>inner := SuspendedYield None
                  ((source (\<lambda>n. if n < 2 then Inr (Unflagged (int n + 1)) else Inr Finished))
                     \<lparr>inner := 1\<rparr>, [])\<rparr>)
   \<and> AsyncIter_next (AsyncIter_chain ([] :: (nat, unit, int) Iter list)
        (source (\<lambda>n. if n < 2 then Inr (Unflagged (int n + 1)) else Inr Finished)
           :: (nat, unit, int) Iter)) =
       Some (Inr (Yielded 1),
             (AsyncIter_chain [] (source (\<lambda>n. if n < 2 then Inr (Unflagged (int n + 1)) else Inr Finished)))
               \<lparr>inner := SuspendedYield None
                  ((source (\<lambda>n. if n < 2 then Inr (Unflagged (int n + 1)) else Inr Finished))
                     \<lparr>inner := 1\<rparr>, [])\<rparr>)"
proof -
  have d1: "drains (of_list [1, 2, 3 :: int] :: (nat, unit, int) Iter) [1, 2, 3] ((of_list [1, 2, 3])\<lparr>inner := 4\<rparr>)"
    using drains_of_list'[of "[1, 2, 3 :: int]"] by (simp add: eval_nat_numeral)
  have d2: "drains (of_list [6, 7 :: int] :: (nat, unit, int) Iter) [6, 7] ((of_list [6, 7])\<lparr>inner := 3\<rparr>)"
    using drains_of_list'[of "[6, 7 :: int]"] by (simp add: eval_nat_numeral)
  have ds: "drains_all [of_list [6, 7 :: int] :: (nat, unit, int) Iter] [[6, 7]] [(of_list [6, 7])\<lparr>inner := 3\<rparr>]"
    using d2 by simp
  have n1: "Iter_next (source (\<lambda>n. if n < 2 then Inr (Unflagged (int n + 1)) else Inr Finished)
        :: (nat, unit, int) Iter) =
       Some (Inr (Unflagged 1),
             (source (\<lambda>n. if n < 2 then Inr (Unflagged (int n + 1)) else Inr Finished))\<lparr>inner := 1\<rparr>)"
    by (simp add: Iter_next_def source_def)
  note T = async_wrapper_agrees_with_sync[where this = "of_list [1, 2, 3 :: int] :: (nat, unit, int) Iter"]
  note rest = T[THEN conjunct2, THEN conjunct2, THEN conjunct2, THEN conjunct2, THEN conjunct2,
        THEN conjunct2, THEN conjunct2, THEN conjunct2, THEN conjunct2, THEN conjunct2,
        THEN conjunct2, THEN conjunct2, THEN conjunct2, THEN conjunct2]
  have ch: "AsyncIter_collect (AsyncIter_chain [of_list [6, 7]]
        (of_list [1, 2, 3 :: int] :: (nat, unit, int) Iter)) =
       Some (Inr [1, 2, 3, 6, 7],
             (AsyncIter_chain [of_list [6, 7]] (of_list [1, 2, 3]))
               \<lparr>inner := Completed ((of_list [1, 2, 3])\<lparr>inner := 4\<rparr>, [(of_list [6, 7])\<lparr>inner := 3\<rparr>])\<rparr>)
   \<and> collect (Iter_chain [of_list [6, 7]]
        (of_list [1, 2, 3 :: int] :: (nat, unit, int) Iter)) =
       Some (Inr [1, 2, 3, 6, 7],
             (Iter_chain [of_list [6, 7]] (of_list [1, 2, 3]))
               \<lparr>inner := Completed ((of_list [1, 2, 3])\<lparr>inner := 4\<rparr>, [(of_list [6, 7])\<lparr>inner := 3\<rparr>])\<rparr>)"
    using rest[THEN conjunct1, rule_format, OF conjI, OF d1 ds]
    by simp
  have zp: "map_option fst (AsyncIter_collect (AsyncIter_zip (of_list [6, 7])
        (of_list [1, 2, 3 :: int] :: (nat, unit, int) Iter))) = Some (Inr [(1, 6), (2, 7)])
   \<and> map_option fst (collect (Iter_zip (of_list [6, 7])
        (of_list [1, 2, 3 :: int] :: (nat, unit, int) Iter))) = Some (Inr [(1, 6), (2, 7)])"
    using rest[THEN conjunct2, THEN conjunct1, rule_format, OF conjI, OF d1 d2]
    by auto
  note U = async_wrapper_agrees_with_sync[where
      this = "source (\<lambda>n. if n < 2 then Inr (Unflagged (int n + 1)) else Inr Finished) :: (nat, unit, int) Iter"
      and others = "[] :: (nat, unit, int) Iter list",
      THEN conjunct2, THEN conjunct2, THEN conjunct2, THEN conjunct2, THEN conjunct2,
        THEN conjunct2, THEN conjunct2, THEN conjunct2, THEN conjunct2, THEN conjunct2,
        THEN conjunct2, THEN conjunct2, THEN conjunct2, THEN conjunct2, THEN conjunct2,
        THEN conjunct2, rule_format, OF n1]
  from d1 d2 ds ch zp n1 U show ?thesis
    by blast
qed

text \<open>
  C2 as stated, without the condition on \<^verbatim>\<open>done\<close>, fails.  A source answers
  \<^verbatim>\<open>{value: 1}\<close>, \<^verbatim>\<open>{value: 2}\<close> and then \<^verbatim>\<open>{done: true}\<close>; both wrappers collect it to
  \<open>[1, 2]\<close>.  The first pull of \<^verbatim>\<open>chain()\<close> on it answers \<^verbatim>\<open>{value: 1}\<close> on the synchronous
  wrapper and \<^verbatim>\<open>{value: 1, done: false}\<close> on the asynchronous one, and zipped with the
  sequence 6, 7 the synchronous wrapper collects no pair where the asynchronous one
  collects two.
\<close>

theorem async_chain_rewraps_missing_done:
  "map_option fst (collect (source (\<lambda>n. if n < 2 then Inr (Unflagged (int n + 1)) else Inr Finished)
       :: (nat, unit, int) Iter)) = Some (Inr [1, 2])
   \<and> map_option fst (AsyncIter_collect (source (\<lambda>n. if n < 2 then Inr (Unflagged (int n + 1)) else Inr Finished)
       :: (nat, unit, int) Iter)) = Some (Inr [1, 2])
   \<and> map_option fst (Iter_next (Iter_chain ([] :: (nat, unit, int) Iter list)
        (source (\<lambda>n. if n < 2 then Inr (Unflagged (int n + 1)) else Inr Finished)
           :: (nat, unit, int) Iter))) = Some (Inr (Unflagged 1))
   \<and> map_option fst (AsyncIter_next (AsyncIter_chain ([] :: (nat, unit, int) Iter list)
        (source (\<lambda>n. if n < 2 then Inr (Unflagged (int n + 1)) else Inr Finished)
           :: (nat, unit, int) Iter))) = Some (Inr (Yielded 1))
   \<and> map_option fst (collect (Iter_zip (of_list [6, 7 :: int] :: (nat, unit, int) Iter)
        (Iter_chain ([] :: (nat, unit, int) Iter list)
           (source (\<lambda>n. if n < 2 then Inr (Unflagged (int n + 1)) else Inr Finished)
              :: (nat, unit, int) Iter)))) = Some (Inr [])
   \<and> map_option fst (AsyncIter_collect (AsyncIter_zip (of_list [6, 7 :: int] :: (nat, unit, int) Iter)
        (AsyncIter_chain ([] :: (nat, unit, int) Iter list)
           (source (\<lambda>n. if n < 2 then Inr (Unflagged (int n + 1)) else Inr Finished)
              :: (nat, unit, int) Iter)))) = Some (Inr [(1, 6), (2, 7)])"
  by (simp add: collect_def AsyncIter_collect_def reduce.simps AsyncIter_reduce.simps
      Iter_next_def AsyncIter_next_def source_def of_list_def Iter_chain_def AsyncIter_chain_def
      Iter_zip_def AsyncIter_zip_def generator_next_def chain_iter_def chain_resume_def
      async_chain_iter_def async_chain_resume_def zip_loop_def async_zip_loop_def
      Symbol_iterator_def Symbol_asyncIterator_def Let_def)

text \<open>
  C3.  The code at \<^verbatim>\<open>take(1)\<close> over the elements 10, 20, 30: the first pull yields 10 and
  has called the parent once; the second pull, which reports exhaustion, calls the
  parent a second time and drops the element 20 it is given.  \<^verbatim>\<open>take(0)\<close> calls the parent
  once to yield nothing.  The asynchronous wrapper does the same.  \<^verbatim>\<open>take(2)\<close> over
  \<^verbatim>\<open>repeatWith\<close> leaves the generator of \<^verbatim>\<open>repeatWith\<close> with its index at 3: the supplied
  function was called three times for two elements.  Over a parent that
  never ends, collecting \<^verbatim>\<open>take(k)\<close> returns its first \<open>k\<close> elements and leaves it after
  \<open>k + 1\<close> calls.
\<close>

theorem take_pulls_one_past_limit:
  "pull_n 1 (Iter_take 1 (of_list [10, 20, 30 :: int] :: (nat, unit, int) Iter)) =
     Some ([Inr (Yielded 10)],
           (Iter_take 1 (of_list [10, 20, 30]))
             \<lparr>inner := SuspendedYield 1 ((of_list [10, 20, 30])\<lparr>inner := 1\<rparr>)\<rparr>)
   \<and> pull_n 2 (Iter_take 1 (of_list [10, 20, 30 :: int] :: (nat, unit, int) Iter)) =
     Some ([Inr (Yielded 10), Inr Finished],
           (Iter_take 1 (of_list [10, 20, 30]))
             \<lparr>inner := Completed ((of_list [10, 20, 30])\<lparr>inner := 2\<rparr>)\<rparr>)
   \<and> pull_n 1 (Iter_take 0 (of_list [10, 20, 30 :: int] :: (nat, unit, int) Iter)) =
     Some ([Inr Finished],
           (Iter_take 0 (of_list [10, 20, 30]))
             \<lparr>inner := Completed ((of_list [10, 20, 30])\<lparr>inner := 1\<rparr>)\<rparr>)
   \<and> pull_n 2 (AsyncIter_take 1 (of_list [10, 20, 30 :: int] :: (nat, unit, int) Iter)) =
     Some ([Inr (Yielded 10), Inr Finished],
           (AsyncIter_take 1 (of_list [10, 20, 30]))
             \<lparr>inner := Completed ((of_list [10, 20, 30])\<lparr>inner := 2\<rparr>)\<rparr>)
   \<and> pull_n 3 (Iter_take 2 (repeatWith (\<lambda>i. Inr i) :: ((nat, unit) generator, unit, nat) Iter)) =
     Some ([Inr (Yielded 0), Inr (Yielded 1), Inr Finished],
           (Iter_take 2 (repeatWith (\<lambda>i. Inr i)))
             \<lparr>inner := Completed ((repeatWith (\<lambda>i. Inr i))\<lparr>inner := SuspendedYield 3 ()\<rparr>)\<rparr>)
   \<and> collect (Iter_take (int k) (endless f :: (nat, unit, 'a) Iter)) =
     Some (Inr (map f [0..<k]),
           (Iter_take (int k) (endless f))\<lparr>inner := Completed ((endless f)\<lparr>inner := Suc k\<rparr>)\<rparr>)"
proof -
  have "yields (endless f :: (nat, unit, 'a) Iter) (map f [0..<k]) ((endless f)\<lparr>inner := k\<rparr>)"
    using yields_endless[of f k] by (simp add: advanced_def)
  moreover have "Iter_next ((endless f :: (nat, unit, 'a) Iter)\<lparr>inner := k\<rparr>) =
                   Some (Inr (Yielded (f k)), (endless f)\<lparr>inner := Suc k\<rparr>)"
    by (simp add: Iter_next_def endless_def source_def)
  ultimately have "collect (Iter_take (int k) (endless f :: (nat, unit, 'a) Iter)) =
     Some (Inr (map f [0..<k]),
           (Iter_take (int k) (endless f))\<lparr>inner := Completed ((endless f)\<lparr>inner := Suc k\<rparr>)\<rparr>)"
    by (rule take_collect_long) simp
  then show ?thesis
    by (simp add: eval_nat_numeral AsyncIter_take_def Iter_take_def loop_generator_def Iter_next_def
        async_loop_generator_def AsyncIter_next_def for_await_of.simps async_take_body_def
        generator_next_def for_of.simps of_list_def source_def take_body_def repeatWith_def
        repeatWith_loop_def)
qed

text \<open>
  C4 (amended).  For a left and a right sequence that are finite and report \<^verbatim>\<open>done\<close> with
  every result, with elements \<open>xs\<close> and \<open>ys\<close>, collecting \<^verbatim>\<open>zip\<close> returns the pairs
  \<open>zip xs ys\<close>, as many as the shorter side has elements, and leaves each side after the
  same number of pulls, one more than that.  With an endless sequence on either side the
  pairs are as many as the finite side has elements.  One step of the zipped wrapper, at
  its start or after a yield, in which the left pull returns a result makes one pull on
  the left and one on the right, whatever the right one answers.  Such a step yields the
  pair of the two values when both results have \<^verbatim>\<open>done: false\<close>, and ends the wrapper when
  either result has \<^verbatim>\<open>done: true\<close> or no \<^verbatim>\<open>done\<close> at all.  A step in which the left pull
  throws fails with that error, has pulled the left side and has not pulled the right
  side.  A left side whose first result has no \<^verbatim>\<open>done\<close> gives no pairs.  Five elements
  zipped with an endless sequence give five pairs.
\<close>

theorem zip_pairs_in_lock_step:
  fixes this l :: "('s, 'e, 'a) Iter" and right r :: "('t, 'e, 'a) Iter"
    and infinite :: "(nat, 'e, 'a) Iter"
  shows "(drains this xs this' \<and> drains right ys right' \<longrightarrow>
            length (zip xs ys) = min (length xs) (length ys) \<and>
            (\<exists>rl rr l1 r1.
               ends this (take (min (length xs) (length ys)) xs) (Inr rl) l1 \<and>
               ends right (take (min (length xs) (length ys)) ys) (Inr rr) r1 \<and>
               collect (Iter_zip right this) =
                 Some (Inr (zip xs ys), (Iter_zip right this)\<lparr>inner := Completed (l1, r1)\<rparr>)))
       \<and> (drains this xs this' \<longrightarrow>
            collect (Iter_zip (endless g) this) =
              Some (Inr (zip xs (map g [0..<length xs])),
                    (Iter_zip (endless g) this)
                      \<lparr>inner := Completed (this', (endless g)\<lparr>inner := Suc (length xs)\<rparr>)\<rparr>))
       \<and> (drains right ys right' \<longrightarrow>
            collect (Iter_zip right (endless g)) =
              Some (Inr (zip (map g [0..<length ys]) ys),
                    (Iter_zip right (endless g))
                      \<lparr>inner := Completed ((endless g)\<lparr>inner := Suc (length ys)\<rparr>, right')\<rparr>))
       \<and> (Iter_next l = Some (Inr a, l1) \<and> Iter_next r = Some (b, r1) \<longrightarrow>
            map_option (captured \<circ> inner \<circ> snd)
              (Iter_next ((Iter_zip right this)\<lparr>inner := SuspendedYield False (l, r)\<rparr>)) =
            Some (l1, r1))
       \<and> (Iter_next this = Some (Inr a, l1) \<and> Iter_next right = Some (b, r1) \<longrightarrow>
            map_option (captured \<circ> inner \<circ> snd) (Iter_next (Iter_zip right this)) = Some (l1, r1))
       \<and> (Iter_next l = Some (Inr (Yielded x), l1) \<and> Iter_next r = Some (Inr (Yielded y), r1) \<longrightarrow>
            Iter_next ((Iter_zip right this)\<lparr>inner := SuspendedYield False (l, r)\<rparr>) =
              Some (Inr (Yielded (x, y)),
                    (Iter_zip right this)\<lparr>inner := SuspendedYield False (l1, r1)\<rparr>))
       \<and> (Iter_next l = Some (Inr a, l1) \<and> Iter_next r = Some (Inr c, r1) \<and>
            (done_or_true a \<or> done_or_true c) \<longrightarrow>
            Iter_next ((Iter_zip right this)\<lparr>inner := SuspendedYield False (l, r)\<rparr>) =
              Some (Inr Finished, (Iter_zip right this)\<lparr>inner := Completed (l1, r1)\<rparr>))
       \<and> (Iter_next l = Some (Inl e, l1) \<longrightarrow>
            Iter_next ((Iter_zip right this)\<lparr>inner := SuspendedYield False (l, r)\<rparr>) =
              Some (Inl e, (Iter_zip right this)\<lparr>inner := Completed (l1, r)\<rparr>))
       \<and> (Iter_next this = Some (Inl e, l1) \<longrightarrow>
            Iter_next (Iter_zip right this) =
              Some (Inl e, (Iter_zip right this)\<lparr>inner := Completed (l1, right)\<rparr>))
       \<and> (Iter_next this = Some (Inr (Unflagged v), l1) \<and> Iter_next right = Some (Inr c, r1) \<longrightarrow>
            collect (Iter_zip right this) =
              Some (Inr [], (Iter_zip right this)\<lparr>inner := Completed (l1, r1)\<rparr>))
       \<and> map_option fst (collect (Iter_zip (endless (\<lambda>i. int i))
              (of_list [1, 2, 3, 4, 5 :: int] :: (nat, 'e, int) Iter))) =
          Some (Inr [(1, 0), (2, 1), (3, 2), (4, 3), (5, 4)])"
proof -
  have pair: "Iter_next ((Iter_zip right this)\<lparr>inner := SuspendedYield False (l, r)\<rparr>) =
              Some (Inr (Yielded (x, y)),
                    (Iter_zip right this)\<lparr>inner := SuspendedYield False (l1, r1)\<rparr>)"
    if "Iter_next l = Some (Inr (Yielded x), l1)" and "Iter_next r = Some (Inr (Yielded y), r1)"
    using that by (simp add: Iter_zip_in next_zip_at generator_next_def zip_loop_def)
  have stop: "Iter_next ((Iter_zip right this)\<lparr>inner := SuspendedYield False (l, r)\<rparr>) =
              Some (Inr Finished, (Iter_zip right this)\<lparr>inner := Completed (l1, r1)\<rparr>)"
    if "Iter_next l = Some (Inr a, l1)" and "Iter_next r = Some (Inr c, r1)"
      and "done_or_true a \<or> done_or_true c"
    using that by (auto simp: Iter_zip_in next_zip_at generator_next_def zip_loop_def)
  have lthrow: "Iter_next ((Iter_zip right this)\<lparr>inner := SuspendedYield False (l, r)\<rparr>) =
              Some (Inl e, (Iter_zip right this)\<lparr>inner := Completed (l1, r)\<rparr>)"
    if "Iter_next l = Some (Inl e, l1)"
    using that by (simp add: Iter_zip_in next_zip_at generator_next_def zip_loop_def)
  have sthrow: "Iter_next (Iter_zip right this) =
              Some (Inl e, (Iter_zip right this)\<lparr>inner := Completed (l1, right)\<rparr>)"
    if "Iter_next this = Some (Inl e, l1)"
    using that
    by (simp add: next_zip_start Iter_zip_in next_zip_at generator_next_def zip_loop_def)
  have unfl: "collect (Iter_zip right this) =
              Some (Inr [], (Iter_zip right this)\<lparr>inner := Completed (l1, r1)\<rparr>)"
    if "Iter_next this = Some (Inr (Unflagged v), l1)" and "Iter_next right = Some (Inr c, r1)"
  proof -
    have "Iter_next (Iter_zip right this) =
            Some (Inr Finished, (Iter_zip right this)\<lparr>inner := Completed (l1, r1)\<rparr>)"
      using that
      by (simp add: next_zip_start Iter_zip_in next_zip_at generator_next_def zip_loop_def)
    then have "drains (Iter_zip right this) [] ((Iter_zip right this)\<lparr>inner := Completed (l1, r1)\<rparr>)"
      by (simp add: drains_Nil)
    from collect_drains[OF this] show ?thesis .
  qed
  have inf_right: "collect (Iter_zip (endless h) it) =
              Some (Inr (zip zs (map h [0..<length zs])),
                    (Iter_zip (endless h) it)
                      \<lparr>inner := Completed (it', (endless h)\<lparr>inner := Suc (length zs)\<rparr>)\<rparr>)"
    if "drains it zs it'" for it it' :: "('x, 'e, 'y) Iter" and zs h
  proof -
    have "ends it zs (Inr Finished) it'"
      using that by (simp add: drains_ends)
    from collect_drains[OF zip_ends_collect[OF this ends_endless[of h "length zs"]]]
    show ?thesis by simp
  qed
  have inf_left: "collect (Iter_zip right (endless g)) =
              Some (Inr (zip (map g [0..<length ys]) ys),
                    (Iter_zip right (endless g))
                      \<lparr>inner := Completed ((endless g)\<lparr>inner := Suc (length ys)\<rparr>, right')\<rparr>)"
    if "drains right ys right'"
  proof -
    have "ends right ys (Inr Finished) right'"
      using that by (simp add: drains_ends)
    from collect_drains[OF zip_ends_collect[OF ends_endless[of g "length ys"] this]]
    show ?thesis by simp
  qed
  have step: "map_option (captured \<circ> inner \<circ> snd)
              (Iter_next ((Iter_zip right this)\<lparr>inner := SuspendedYield False (l, r)\<rparr>)) =
            Some (l1, r1)"
    if "Iter_next l = Some (Inr a, l1)" and "Iter_next r = Some (b, r1)"
    using next_zip_step[OF that] by (simp add: Iter_zip_in)
  have start: "map_option (captured \<circ> inner \<circ> snd) (Iter_next (Iter_zip right this)) = Some (l1, r1)"
    if "Iter_next this = Some (Inr a, l1)" and "Iter_next right = Some (b, r1)"
    using next_zip_step[OF that] by (simp add: next_zip_start)
  have "collect (Iter_zip (endless (\<lambda>i. int i)) (of_list [1, 2, 3, 4, 5 :: int] :: (nat, 'e, int) Iter)) =
          Some (Inr (zip [1, 2, 3, 4, 5] (map (\<lambda>i. int i) [0..<length [1, 2, 3, 4, 5 :: int]])),
                (Iter_zip (endless (\<lambda>i. int i)) (of_list [1, 2, 3, 4, 5 :: int]))
                  \<lparr>inner := Completed ((of_list [1, 2, 3, 4, 5 :: int])\<lparr>inner := Suc (length [1, 2, 3, 4, 5 :: int])\<rparr>,
                     (endless (\<lambda>i. int i))\<lparr>inner := Suc (length [1, 2, 3, 4, 5 :: int])\<rparr>)\<rparr>)"
    by (rule inf_right[OF drains_of_list'])
  then have scen: "map_option fst (collect (Iter_zip (endless (\<lambda>i. int i))
              (of_list [1, 2, 3, 4, 5 :: int] :: (nat, 'e, int) Iter))) =
          Some (Inr [(1, 0), (2, 1), (3, 2), (4, 3), (5, 4)])"
    by (simp add: upt_rec)
  have fin: "length (zip xs ys) = min (length xs) (length ys) \<and>
            (\<exists>rl rr l1 r1.
               ends this (take (min (length xs) (length ys)) xs) (Inr rl) l1 \<and>
               ends right (take (min (length xs) (length ys)) ys) (Inr rr) r1 \<and>
               collect (Iter_zip right this) =
                 Some (Inr (zip xs ys), (Iter_zip right this)\<lparr>inner := Completed (l1, r1)\<rparr>))"
    if "drains this xs this'" and "drains right ys right'"
    using zip_finite_collect[OF that] by auto
  show ?thesis
    using fin inf_right[of this xs this' g] inf_left step start pair stop lthrow sthrow unfl scen
    by blast
qed


theorem zip_pairs_in_lock_step_witness:
  "drains (of_list [1, 2, 3 :: int] :: (nat, unit, int) Iter) [1, 2, 3] ((of_list [1, 2, 3])\<lparr>inner := 4\<rparr>)
   \<and> drains (of_list [6, 7 :: int] :: (nat, unit, int) Iter) [6, 7] ((of_list [6, 7])\<lparr>inner := 3\<rparr>)
   \<and> (\<exists>rl rr l1 r1.
        ends (of_list [1, 2, 3 :: int] :: (nat, unit, int) Iter) [1, 2] (Inr rl) l1 \<and>
        ends (of_list [6, 7 :: int] :: (nat, unit, int) Iter) [6, 7] (Inr rr) r1 \<and>
        collect (Iter_zip (of_list [6, 7]) (of_list [1, 2, 3 :: int] :: (nat, unit, int) Iter)) =
          Some (Inr [(1, 6), (2, 7)],
                (Iter_zip (of_list [6, 7]) (of_list [1, 2, 3]))\<lparr>inner := Completed (l1, r1)\<rparr>))
   \<and> collect (Iter_zip (endless (\<lambda>i. int i)) (of_list [1, 2, 3 :: int] :: (nat, unit, int) Iter)) =
        Some (Inr [(1, 0), (2, 1), (3, 2)],
              (Iter_zip (endless (\<lambda>i. int i)) (of_list [1, 2, 3]))
                \<lparr>inner := Completed ((of_list [1, 2, 3])\<lparr>inner := 4\<rparr>,
                                      (endless (\<lambda>i. int i))\<lparr>inner := 4\<rparr>)\<rparr>)
   \<and> collect (Iter_zip (of_list [6, 7 :: int]) (endless (\<lambda>i. int i) :: (nat, unit, int) Iter)) =
        Some (Inr [(0, 6), (1, 7)],
              (Iter_zip (of_list [6, 7]) (endless (\<lambda>i. int i)))
                \<lparr>inner := Completed ((endless (\<lambda>i. int i))\<lparr>inner := 3\<rparr>,
                                      (of_list [6, 7])\<lparr>inner := 3\<rparr>)\<rparr>)
   \<and> map_option (captured \<circ> inner \<circ> snd)
        (Iter_next (Iter_zip (of_list [6, 7]) (of_list [1, 2, 3 :: int] :: (nat, unit, int) Iter))) =
      Some ((of_list [1, 2, 3])\<lparr>inner := 1\<rparr>, (of_list [6, 7])\<lparr>inner := 1\<rparr>)
   \<and> Iter_next (Iter_zip (of_list [6, 7]) (of_list [1, 2, 3 :: int] :: (nat, unit, int) Iter)) =
      Some (Inr (Yielded (1, 6)),
            (Iter_zip (of_list [6, 7]) (of_list [1, 2, 3]))
              \<lparr>inner := SuspendedYield False
                 ((of_list [1, 2, 3])\<lparr>inner := 1\<rparr>, (of_list [6, 7])\<lparr>inner := 1\<rparr>)\<rparr>)
   \<and> Iter_next (source (\<lambda>n. Inl ''boom'') :: (nat, string, int) Iter) = Some (Inl ''boom'', (source (\<lambda>n. Inl ''boom''))\<lparr>inner := 1\<rparr>)
   \<and> Iter_next (Iter_zip (of_list [6, 7 :: int] :: (nat, string, int) Iter) (source (\<lambda>n. Inl ''boom'') :: (nat, string, int) Iter)) =
      Some (Inl ''boom'', (Iter_zip (of_list [6, 7]) (source (\<lambda>n. Inl ''boom'')))\<lparr>inner := Completed ((source (\<lambda>n. Inl ''boom''))\<lparr>inner := 1\<rparr>, of_list [6, 7])\<rparr>)
   \<and> Iter_next (source (\<lambda>n. if n < 2 then Inr (Unflagged (int n + 1)) else Inr Finished) :: (nat, string, int) Iter) = Some (Inr (Unflagged 1), (source (\<lambda>n. if n < 2 then Inr (Unflagged (int n + 1)) else Inr Finished))\<lparr>inner := 1\<rparr>)
   \<and> collect (Iter_zip (of_list [6, 7 :: int] :: (nat, string, int) Iter) (source (\<lambda>n. if n < 2 then Inr (Unflagged (int n + 1)) else Inr Finished) :: (nat, string, int) Iter)) =
      Some (Inr [], (Iter_zip (of_list [6, 7]) (source (\<lambda>n. if n < 2 then Inr (Unflagged (int n + 1)) else Inr Finished)))
                      \<lparr>inner := Completed ((source (\<lambda>n. if n < 2 then Inr (Unflagged (int n + 1)) else Inr Finished))\<lparr>inner := 1\<rparr>, (of_list [6, 7])\<lparr>inner := 1\<rparr>)\<rparr>)"
proof -
  have t1: "Iter_next (source (\<lambda>n. Inl ''boom'') :: (nat, string, int) Iter) = Some (Inl ''boom'', (source (\<lambda>n. Inl ''boom''))\<lparr>inner := 1\<rparr>)"
    by (simp add: Iter_next_def source_def)
  have u1: "Iter_next (source (\<lambda>n. if n < 2 then Inr (Unflagged (int n + 1)) else Inr Finished) :: (nat, string, int) Iter) = Some (Inr (Unflagged 1), (source (\<lambda>n. if n < 2 then Inr (Unflagged (int n + 1)) else Inr Finished))\<lparr>inner := 1\<rparr>)"
    by (simp add: Iter_next_def source_def)
  have s2: "Iter_next (of_list [6, 7 :: int] :: (nat, string, int) Iter) = Some (Inr (Yielded 6), (of_list [6, 7])\<lparr>inner := 1\<rparr>)"
    by (simp add: Iter_next_def of_list_def source_def)
  note rest = zip_pairs_in_lock_step[THEN conjunct2, THEN conjunct2, THEN conjunct2,
      THEN conjunct2, THEN conjunct2, THEN conjunct2, THEN conjunct2, THEN conjunct2]
  have thr: "Iter_next (Iter_zip (of_list [6, 7 :: int] :: (nat, string, int) Iter) (source (\<lambda>n. Inl ''boom'') :: (nat, string, int) Iter)) =
      Some (Inl ''boom'', (Iter_zip (of_list [6, 7]) (source (\<lambda>n. Inl ''boom'')))\<lparr>inner := Completed ((source (\<lambda>n. Inl ''boom''))\<lparr>inner := 1\<rparr>, of_list [6, 7])\<rparr>)"
    by (rule rest[THEN conjunct1, rule_format, OF t1])
  have unf: "collect (Iter_zip (of_list [6, 7 :: int] :: (nat, string, int) Iter) (source (\<lambda>n. if n < 2 then Inr (Unflagged (int n + 1)) else Inr Finished) :: (nat, string, int) Iter)) =
      Some (Inr [], (Iter_zip (of_list [6, 7]) (source (\<lambda>n. if n < 2 then Inr (Unflagged (int n + 1)) else Inr Finished)))
                      \<lparr>inner := Completed ((source (\<lambda>n. if n < 2 then Inr (Unflagged (int n + 1)) else Inr Finished))\<lparr>inner := 1\<rparr>, (of_list [6, 7])\<lparr>inner := 1\<rparr>)\<rparr>)"
    by (rule rest[THEN conjunct2, THEN conjunct1, rule_format, OF conjI, OF u1 s2])
  have d1: "drains (of_list [1, 2, 3 :: int] :: (nat, unit, int) Iter) [1, 2, 3] ((of_list [1, 2, 3])\<lparr>inner := 4\<rparr>)"
    using drains_of_list'[of "[1, 2, 3 :: int]"] by (simp add: eval_nat_numeral)
  have d2: "drains (of_list [6, 7 :: int] :: (nat, unit, int) Iter) [6, 7] ((of_list [6, 7])\<lparr>inner := 3\<rparr>)"
    using drains_of_list'[of "[6, 7 :: int]"] by (simp add: eval_nat_numeral)
  have n1: "Iter_next (of_list [1, 2, 3 :: int] :: (nat, unit, int) Iter) =
              Some (Inr (Yielded 1), (of_list [1, 2, 3])\<lparr>inner := 1\<rparr>)"
    by (simp add: Iter_next_def of_list_def source_def)
  have n2: "Iter_next (of_list [6, 7 :: int] :: (nat, unit, int) Iter) =
              Some (Inr (Yielded 6), (of_list [6, 7])\<lparr>inner := 1\<rparr>)"
    by (simp add: Iter_next_def of_list_def source_def)
  have main: "drains (of_list [1, 2, 3 :: int] :: (nat, unit, int) Iter) [1, 2, 3] ((of_list [1, 2, 3])\<lparr>inner := 4\<rparr>)
   \<and> drains (of_list [6, 7 :: int] :: (nat, unit, int) Iter) [6, 7] ((of_list [6, 7])\<lparr>inner := 3\<rparr>)
   \<and> (\<exists>rl rr l1 r1.
        ends (of_list [1, 2, 3 :: int] :: (nat, unit, int) Iter) [1, 2] (Inr rl) l1 \<and>
        ends (of_list [6, 7 :: int] :: (nat, unit, int) Iter) [6, 7] (Inr rr) r1 \<and>
        collect (Iter_zip (of_list [6, 7]) (of_list [1, 2, 3 :: int] :: (nat, unit, int) Iter)) =
          Some (Inr [(1, 6), (2, 7)],
                (Iter_zip (of_list [6, 7]) (of_list [1, 2, 3]))\<lparr>inner := Completed (l1, r1)\<rparr>))
   \<and> collect (Iter_zip (endless (\<lambda>i. int i)) (of_list [1, 2, 3 :: int] :: (nat, unit, int) Iter)) =
        Some (Inr [(1, 0), (2, 1), (3, 2)],
              (Iter_zip (endless (\<lambda>i. int i)) (of_list [1, 2, 3]))
                \<lparr>inner := Completed ((of_list [1, 2, 3])\<lparr>inner := 4\<rparr>,
                                      (endless (\<lambda>i. int i))\<lparr>inner := 4\<rparr>)\<rparr>)
   \<and> collect (Iter_zip (of_list [6, 7 :: int]) (endless (\<lambda>i. int i) :: (nat, unit, int) Iter)) =
        Some (Inr [(0, 6), (1, 7)],
              (Iter_zip (of_list [6, 7]) (endless (\<lambda>i. int i)))
                \<lparr>inner := Completed ((endless (\<lambda>i. int i))\<lparr>inner := 3\<rparr>,
                                      (of_list [6, 7])\<lparr>inner := 3\<rparr>)\<rparr>)
   \<and> map_option (captured \<circ> inner \<circ> snd)
        (Iter_next (Iter_zip (of_list [6, 7]) (of_list [1, 2, 3 :: int] :: (nat, unit, int) Iter))) =
      Some ((of_list [1, 2, 3])\<lparr>inner := 1\<rparr>, (of_list [6, 7])\<lparr>inner := 1\<rparr>)
   \<and> Iter_next (Iter_zip (of_list [6, 7]) (of_list [1, 2, 3 :: int] :: (nat, unit, int) Iter)) =
      Some (Inr (Yielded (1, 6)),
            (Iter_zip (of_list [6, 7]) (of_list [1, 2, 3]))
              \<lparr>inner := SuspendedYield False
                 ((of_list [1, 2, 3])\<lparr>inner := 1\<rparr>, (of_list [6, 7])\<lparr>inner := 1\<rparr>)\<rparr>)"
    using d1 d2 n1 n2
      zip_pairs_in_lock_step[where this = "of_list [1, 2, 3 :: int] :: (nat, unit, int) Iter"
        and xs = "[1, 2, 3]" and this' = "(of_list [1, 2, 3])\<lparr>inner := 4\<rparr>"
        and right = "of_list [6, 7 :: int]" and ys = "[6, 7]" and right' = "(of_list [6, 7])\<lparr>inner := 3\<rparr>"
        and g = "\<lambda>i. int i" and a = "Yielded 1" and b = "Inr (Yielded 6)"
        and ?l1.0 = "(of_list [1, 2, 3])\<lparr>inner := 1\<rparr>" and ?r1.0 = "(of_list [6, 7])\<lparr>inner := 1\<rparr>"
        and l = "of_list [1, 2, 3 :: int]" and r = "of_list [6, 7 :: int]"]
    by (simp add: eval_nat_numeral upt_rec next_zip_start Iter_zip_in next_zip_at
        generator_next_def zip_loop_def)
  from main t1 thr u1 unf show ?thesis
    by blast
qed

text \<open>
  C4 as stated fails in two ways.  A source answers \<^verbatim>\<open>{value: 1}\<close>, \<^verbatim>\<open>{value: 2}\<close> and
  then \<^verbatim>\<open>{done: true}\<close>: it is a sequence of two elements for \<^verbatim>\<open>collect\<close>, and zipped with
  the sequence 6, 7 it gives no pair, not two.  A source whose \<^verbatim>\<open>next()\<close> throws, zipped
  with the sequence 6, 7: the first step has pulled the left side once and the right
  side not at all.
\<close>

theorem zip_takes_missing_done_for_exhaustion:
  "map_option fst (collect (source (\<lambda>n. if n < 2 then Inr (Unflagged (int n + 1)) else Inr Finished) :: (nat, string, int) Iter)) = Some (Inr [1, 2])
   \<and> map_option fst (collect (of_list [6, 7 :: int] :: (nat, string, int) Iter)) = Some (Inr [6, 7])
   \<and> collect (Iter_zip (of_list [6, 7 :: int] :: (nat, string, int) Iter) (source (\<lambda>n. if n < 2 then Inr (Unflagged (int n + 1)) else Inr Finished) :: (nat, string, int) Iter)) =
      Some (Inr [], (Iter_zip (of_list [6, 7]) (source (\<lambda>n. if n < 2 then Inr (Unflagged (int n + 1)) else Inr Finished)))
                      \<lparr>inner := Completed ((source (\<lambda>n. if n < 2 then Inr (Unflagged (int n + 1)) else Inr Finished))\<lparr>inner := 1\<rparr>, (of_list [6, 7])\<lparr>inner := 1\<rparr>)\<rparr>)
   \<and> map_option fst (collect (Iter_zip (of_list [6, 7 :: int] :: (nat, string, int) Iter) (source (\<lambda>n. if n < 2 then Inr (Unflagged (int n + 1)) else Inr Finished) :: (nat, string, int) Iter))) \<noteq> Some (Inr (zip [1, 2] [6, 7]))
   \<and> Iter_next (Iter_zip (of_list [6, 7 :: int] :: (nat, string, int) Iter) (source (\<lambda>n. Inl ''boom'') :: (nat, string, int) Iter)) =
      Some (Inl ''boom'', (Iter_zip (of_list [6, 7]) (source (\<lambda>n. Inl ''boom'')))\<lparr>inner := Completed ((source (\<lambda>n. Inl ''boom''))\<lparr>inner := 1\<rparr>, of_list [6, 7])\<rparr>)
   \<and> inner (source (\<lambda>n. Inl ''boom'') :: (nat, string, int) Iter) = 0
   \<and> inner (of_list [6, 7 :: int] :: (nat, string, int) Iter) = 0"
  by (simp add: collect_def reduce.simps Iter_next_def source_def of_list_def Iter_zip_def
      generator_next_def zip_loop_def Symbol_iterator_def Let_def)

text \<open>
  C5.  For a receiver that is a finite sequence of \<open>xs\<close> and a list of further finite
  sequences, collecting \<^verbatim>\<open>chain(...)\<close> returns \<open>xs\<close> followed by the elements of each further
  sequence, in argument order; afterwards the receiver and every argument have been
  drained.  The same holds for the asynchronous wrapper.
\<close>

theorem chain_concatenates_in_order:
  fixes this :: "('s, 'e, 'a) Iter" and others :: "('t, 'e, 'a) Iter list"
  assumes "drains this xs this'" and "drains_all others yss others'"
  shows "collect (Iter_chain others this) =
           Some (Inr (xs @ concat yss),
                 (Iter_chain others this)\<lparr>inner := Completed (this', others')\<rparr>)
         \<and> AsyncIter_collect (AsyncIter_chain others this) =
           Some (Inr (xs @ concat yss),
                 (AsyncIter_chain others this)\<lparr>inner := Completed (this', others')\<rparr>)"
  using collect_drains[OF chain_drains[OF assms]] collect_drains[OF async_chain_drains[OF assms]]
  by (simp add: Iter_chain_in AsyncIter_chain_in AsyncIter_collect_eq)

theorem chain_concatenates_in_order_witness:
  "drains (of_list [1, 2, 3, 4, 5 :: int] :: (nat, unit, int) Iter) [1, 2, 3, 4, 5]
     ((of_list [1, 2, 3, 4, 5])\<lparr>inner := 6\<rparr>)
   \<and> drains_all [of_list [6, 7, 8 :: int] :: (nat, unit, int) Iter, of_list [9, 10]]
       [[6, 7, 8], [9, 10]]
       [(of_list [6, 7, 8])\<lparr>inner := 4\<rparr>, (of_list [9, 10])\<lparr>inner := 3\<rparr>]
   \<and> collect (Iter_chain [of_list [6, 7, 8], of_list [9, 10]]
        (of_list [1, 2, 3, 4, 5 :: int] :: (nat, unit, int) Iter)) =
      Some (Inr [1, 2, 3, 4, 5, 6, 7, 8, 9, 10],
            (Iter_chain [of_list [6, 7, 8], of_list [9, 10]] (of_list [1, 2, 3, 4, 5]))
              \<lparr>inner := Completed ((of_list [1, 2, 3, 4, 5])\<lparr>inner := 6\<rparr>,
                 [(of_list [6, 7, 8])\<lparr>inner := 4\<rparr>, (of_list [9, 10])\<lparr>inner := 3\<rparr>])\<rparr>)"
proof -
  have d: "drains (of_list [1, 2, 3, 4, 5 :: int] :: (nat, unit, int) Iter) [1, 2, 3, 4, 5]
     ((of_list [1, 2, 3, 4, 5])\<lparr>inner := 6\<rparr>)"
    using drains_of_list[of "[1, 2, 3, 4, 5 :: int]"] by (simp add: advanced_def eval_nat_numeral)
  have ds: "drains_all [of_list [6, 7, 8 :: int] :: (nat, unit, int) Iter, of_list [9, 10]]
       [[6, 7, 8], [9, 10]]
       [(of_list [6, 7, 8])\<lparr>inner := 4\<rparr>, (of_list [9, 10])\<lparr>inner := 3\<rparr>]"
    using drains_of_list[of "[6, 7, 8 :: int]"] drains_of_list[of "[9, 10 :: int]"]
    by (simp add: advanced_def eval_nat_numeral)
  show ?thesis
    using d ds chain_concatenates_in_order[OF d ds]
    by simp
qed

text \<open>
  C6.  For a parent that is a finite sequence of the elements \<open>xs\<close> and a function \<open>f\<close> that
  returns a value or \<^verbatim>\<open>undefined\<close> (\<open>None\<close>), collecting \<^verbatim>\<open>filterMap(f)\<close> returns the
  values \<open>f x\<close> of the elements on which \<open>f\<close> is defined, in the order of \<open>xs\<close>; so do
  both variants of the asynchronous wrapper (\<^verbatim>\<open>filterMapSync\<close> with the values of \<open>f\<close>
  returned as they are, not as promises).  On the integers 1 to 10, with \<open>f x\<close> absent
  for even \<open>x\<close> and \<open>x * 2\<close> otherwise, the result is 2, 6, 10, 14, 18.
\<close>

theorem filterMap_keeps_defined_results:
  fixes this :: "('s, 'e, 'a) Iter"
  assumes "drains this xs this'"
  shows "collect (Iter_filterMap (\<lambda>x. Inr (f x)) this) =
           Some (Inr (map (\<lambda>x. the (f x)) (filter (\<lambda>x. f x \<noteq> None) xs)),
                 (Iter_filterMap (\<lambda>x. Inr (f x)) this)\<lparr>inner := Completed this'\<rparr>)
         \<and> AsyncIter_collect (AsyncIter_filterMap (\<lambda>x. Fulfilled (f x)) this) =
           Some (Inr (map (\<lambda>x. the (f x)) (filter (\<lambda>x. f x \<noteq> None) xs)),
                 (AsyncIter_filterMap (\<lambda>x. Fulfilled (f x)) this)\<lparr>inner := Completed this'\<rparr>)
         \<and> AsyncIter_collect (AsyncIter_filterMapSync (\<lambda>x. Inr (map_option Fulfilled (f x))) this) =
           Some (Inr (map (\<lambda>x. the (f x)) (filter (\<lambda>x. f x \<noteq> None) xs)),
                 (AsyncIter_filterMapSync (\<lambda>x. Inr (map_option Fulfilled (f x))) this)
                   \<lparr>inner := Completed this'\<rparr>)
         \<and> map_option fst (collect (Iter_filterMap
               (\<lambda>x. Inr (if x mod 2 = 0 then None else Some (x * 2)))
               (of_list [1, 2, 3, 4, 5, 6, 7, 8, 9, 10 :: int] :: (nat, 'e, int) Iter))) =
           Some (Inr [2, 6, 10, 14, 18])"
proof -
  have gen: "collect (loop_generator (filterMap_body (\<lambda>x. Inr (g x))) () it) =
        Some (Inr (map (\<lambda>x. the (g x)) (filter (\<lambda>x. g x \<noteq> None) ys)),
              (loop_generator (filterMap_body (\<lambda>x. Inr (g x))) () it)\<lparr>inner := Completed it'\<rparr>)"
    if "drains it ys it'" for g :: "'x \<Rightarrow> 'y option" and ys and it it' :: "('z, 'e, 'x) Iter"
  proof -
    have "loop_locals (filterMap_body (\<lambda>x. Inr (g x) :: 'e + 'y option)) () ys = Some () \<and>
          loop_out (filterMap_body (\<lambda>x. Inr (g x) :: 'e + 'y option)) () ys = List.map_filter g ys"
      by (rule filterMap_body_list) simp
    then have b: "loop_locals (filterMap_body (\<lambda>x. Inr (g x) :: 'e + 'y option)) () ys = Some ()"
      and o: "loop_out (filterMap_body (\<lambda>x. Inr (g x) :: 'e + 'y option)) () ys = List.map_filter g ys"
      by simp_all
    from loop_generator_collect[OF that b] show ?thesis
      by (simp only: o) (simp add: map_filter_def comp_def)
  qed
  have "collect (Iter_filterMap
               (\<lambda>x. Inr (if x mod 2 = 0 then None else Some (x * 2)))
               (of_list [1, 2, 3, 4, 5, 6, 7, 8, 9, 10 :: int] :: (nat, 'e, int) Iter)) =
           Some (Inr [2, 6, 10, 14, 18],
             (Iter_filterMap (\<lambda>x. Inr (if x mod 2 = 0 then None else Some (x * 2)))
               (of_list [1, 2, 3, 4, 5, 6, 7, 8, 9, 10 :: int]))\<lparr>inner := Completed
                 (advanced (of_list [1, 2, 3, 4, 5, 6, 7, 8, 9, 10 :: int]) 11)\<rparr>)"
    using gen[OF drains_of_list, of "\<lambda>x. if x mod 2 = 0 then None else Some (x * 2)" "[1, 2, 3, 4, 5, 6, 7, 8, 9, 10 :: int]"]
    by (simp add: Iter_filterMap_def eval_nat_numeral)
  then have scen: "map_option fst (collect (Iter_filterMap
               (\<lambda>x. Inr (if x mod 2 = 0 then None else Some (x * 2)))
               (of_list [1, 2, 3, 4, 5, 6, 7, 8, 9, 10 :: int] :: (nat, 'e, int) Iter))) =
           Some (Inr [2, 6, 10, 14, 18])"
    by simp
  show ?thesis
    using gen[OF assms, of f] scen
    by (simp add: Iter_filterMap_def AsyncIter_filterMap_def AsyncIter_filterMapSync_def
        AsyncIter_collect_eq async_loop_generator_eq async_filterMap_body_Fulfilled
        async_filterMapSync_body_plain)
qed

theorem filterMap_keeps_defined_results_witness:
  "drains (of_list [1, 2, 3 :: int] :: (nat, unit, int) Iter) [1, 2, 3] ((of_list [1, 2, 3])\<lparr>inner := 4\<rparr>)
   \<and> collect (Iter_filterMap (\<lambda>x. Inr (if x = 2 then None else Some (x + 1)))
        (of_list [1, 2, 3 :: int] :: (nat, unit, int) Iter)) =
      Some (Inr [2, 4],
            (Iter_filterMap (\<lambda>x. Inr (if x = 2 then None else Some (x + 1))) (of_list [1, 2, 3]))
              \<lparr>inner := Completed ((of_list [1, 2, 3])\<lparr>inner := 4\<rparr>)\<rparr>)"
proof -
  have d: "drains (of_list [1, 2, 3 :: int] :: (nat, unit, int) Iter) [1, 2, 3] ((of_list [1, 2, 3])\<lparr>inner := 4\<rparr>)"
    using drains_of_list[of "[1, 2, 3 :: int]"] by (simp add: advanced_def eval_nat_numeral)
  show ?thesis
    using d filterMap_keeps_defined_results[OF d, of "\<lambda>x. if x = 2 then None else Some (x + 1)"]
    by simp
qed

text \<open>
  C7.  For a parent that is a finite sequence of the elements \<open>xs\<close> and a count \<open>n\<close>,
  collecting \<^verbatim>\<open>skip(n)\<close> returns \<open>xs\<close> without its first \<open>n\<close> elements, in order, on both
  wrappers; the first \<open>n\<close> elements of what \<^verbatim>\<open>collect()\<close> returns on the parent, followed by
  that, are what \<^verbatim>\<open>collect()\<close> returns on the parent.  The bound \<open>n \<le> length xs\<close> is not
  needed.
\<close>

theorem skip_discards_first_pulled:
  fixes this :: "('s, 'e, 'a) Iter"
  assumes "drains this xs this'"
  shows "collect this = Some (Inr xs, this')
         \<and> collect (Iter_skip (int n) this) =
             Some (Inr (drop n xs), (Iter_skip (int n) this)\<lparr>inner := Completed this'\<rparr>)
         \<and> AsyncIter_collect (AsyncIter_skip (int n) this) =
             Some (Inr (drop n xs), (AsyncIter_skip (int n) this)\<lparr>inner := Completed this'\<rparr>)
         \<and> take n xs @ drop n xs = xs"
proof -
  have "loop_locals (skip_body (int n) :: int \<Rightarrow> 'a \<Rightarrow> (int, 'e, 'a) completion option) 0 xs
          = Some (0 + int (length xs)) \<and>
        loop_out (skip_body (int n) :: int \<Rightarrow> 'a \<Rightarrow> (int, 'e, 'a) completion option) 0 xs
          = drop (nat (int n - 0)) xs"
    by (rule skip_body_list)
  then have b: "loop_locals (skip_body (int n) :: int \<Rightarrow> 'a \<Rightarrow> (int, 'e, 'a) completion option) 0 xs
          = Some (int (length xs))"
    and o: "loop_out (skip_body (int n) :: int \<Rightarrow> 'a \<Rightarrow> (int, 'e, 'a) completion option) 0 xs = drop n xs"
    by simp_all
  from loop_generator_collect[OF assms b] collect_drains[OF assms] show ?thesis
    by (simp add: o Iter_skip_def AsyncIter_skip_def AsyncIter_collect_eq async_loop_generator_eq
        async_skip_body_settled)
qed

theorem skip_discards_first_pulled_witness:
  "drains (of_list [6, 7, 8, 9, 10 :: int] :: (nat, unit, int) Iter) [6, 7, 8, 9, 10]
     ((of_list [6, 7, 8, 9, 10])\<lparr>inner := 6\<rparr>)
   \<and> collect (Iter_skip 2 (of_list [6, 7, 8, 9, 10 :: int] :: (nat, unit, int) Iter)) =
      Some (Inr [8, 9, 10],
            (Iter_skip 2 (of_list [6, 7, 8, 9, 10]))
              \<lparr>inner := Completed ((of_list [6, 7, 8, 9, 10])\<lparr>inner := 6\<rparr>)\<rparr>)"
proof -
  have d: "drains (of_list [6, 7, 8, 9, 10 :: int] :: (nat, unit, int) Iter) [6, 7, 8, 9, 10]
     ((of_list [6, 7, 8, 9, 10])\<lparr>inner := 6\<rparr>)"
    using drains_of_list[of "[6, 7, 8, 9, 10 :: int]"] by (simp add: advanced_def eval_nat_numeral)
  show ?thesis
    using d skip_discards_first_pulled[OF d, of 2]
    by simp
qed



text \<open>
  C9.  Take the wrapper a combinator returns, in any state \<open>g\<close> its generator can be in,
  over any parent and arguments.  If a pull on it reports exhaustion, every later pull
  reports exhaustion and changes nothing, whatever the raw source below does.  This is so
  for all ten combinators of \<^verbatim>\<open>Iter\<close> and all eleven of \<^verbatim>\<open>AsyncIter\<close>.  A wrapper put
  directly around a raw source hands on what the source answers: around a source that
  answers an element, then \<^verbatim>\<open>{done: true}\<close>, then elements again, it yields again after
  reporting exhaustion.
\<close>

theorem combinator_wrappers_stay_exhausted:
  "(\<forall>g w n. Iter_next ((Iter_filter predicate this)\<lparr>inner := g\<rparr>) = Some (Inr Finished, w) \<longrightarrow>
      pull_n n w = Some (replicate n (Inr Finished), w))
   \<and> (\<forall>g w n. Iter_next ((Iter_filterMap func this)\<lparr>inner := g\<rparr>) = Some (Inr Finished, w) \<longrightarrow>
      pull_n n w = Some (replicate n (Inr Finished), w))
   \<and> (\<forall>g w n. Iter_next ((Iter_map func' this)\<lparr>inner := g\<rparr>) = Some (Inr Finished, w) \<longrightarrow>
      pull_n n w = Some (replicate n (Inr Finished), w))
   \<and> (\<forall>g w n. Iter_next ((Iter_chain others this)\<lparr>inner := g\<rparr>) = Some (Inr Finished, w) \<longrightarrow>
      pull_n n w = Some (replicate n (Inr Finished), w))
   \<and> (\<forall>g w n. Iter_next ((Iter_zip right this)\<lparr>inner := g\<rparr>) = Some (Inr Finished, w) \<longrightarrow>
      pull_n n w = Some (replicate n (Inr Finished), w))
   \<and> (\<forall>g w n. Iter_next ((Iter_enumerate this)\<lparr>inner := g\<rparr>) = Some (Inr Finished, w) \<longrightarrow>
      pull_n n w = Some (replicate n (Inr Finished), w))
   \<and> (\<forall>g w n. Iter_next ((Iter_take limit this)\<lparr>inner := g\<rparr>) = Some (Inr Finished, w) \<longrightarrow>
      pull_n n w = Some (replicate n (Inr Finished), w))
   \<and> (\<forall>g w n. Iter_next ((Iter_skip items this)\<lparr>inner := g\<rparr>) = Some (Inr Finished, w) \<longrightarrow>
      pull_n n w = Some (replicate n (Inr Finished), w))
   \<and> (\<forall>g w n. Iter_next ((Iter_flat nested)\<lparr>inner := g\<rparr>) = Some (Inr Finished, w) \<longrightarrow>
      pull_n n w = Some (replicate n (Inr Finished), w))
   \<and> (\<forall>g w n. Iter_next ((repeatWith generate)\<lparr>inner := g\<rparr>) = Some (Inr Finished, w) \<longrightarrow>
      pull_n n w = Some (replicate n (Inr Finished), w))
   \<and> (\<forall>g w n. Iter_next ((AsyncIter_filter apredicate this)\<lparr>inner := g\<rparr>) = Some (Inr Finished, w) \<longrightarrow>
      pull_n n w = Some (replicate n (Inr Finished), w))
   \<and> (\<forall>g w n. Iter_next ((AsyncIter_filterSync predicate this)\<lparr>inner := g\<rparr>) = Some (Inr Finished, w) \<longrightarrow>
      pull_n n w = Some (replicate n (Inr Finished), w))
   \<and> (\<forall>g w n. Iter_next ((AsyncIter_filterMap afunc this)\<lparr>inner := g\<rparr>) = Some (Inr Finished, w) \<longrightarrow>
      pull_n n w = Some (replicate n (Inr Finished), w))
   \<and> (\<forall>g w n. Iter_next ((AsyncIter_filterMapSync sfunc this)\<lparr>inner := g\<rparr>) = Some (Inr Finished, w) \<longrightarrow>
      pull_n n w = Some (replicate n (Inr Finished), w))
   \<and> (\<forall>g w n. Iter_next ((AsyncIter_map afunc' this)\<lparr>inner := g\<rparr>) = Some (Inr Finished, w) \<longrightarrow>
      pull_n n w = Some (replicate n (Inr Finished), w))
   \<and> (\<forall>g w n. Iter_next ((AsyncIter_mapSync sfunc' this)\<lparr>inner := g\<rparr>) = Some (Inr Finished, w) \<longrightarrow>
      pull_n n w = Some (replicate n (Inr Finished), w))
   \<and> (\<forall>g w n. Iter_next ((AsyncIter_chain others this)\<lparr>inner := g\<rparr>) = Some (Inr Finished, w) \<longrightarrow>
      pull_n n w = Some (replicate n (Inr Finished), w))
   \<and> (\<forall>g w n. Iter_next ((AsyncIter_zip right this)\<lparr>inner := g\<rparr>) = Some (Inr Finished, w) \<longrightarrow>
      pull_n n w = Some (replicate n (Inr Finished), w))
   \<and> (\<forall>g w n. Iter_next ((AsyncIter_enumerate this)\<lparr>inner := g\<rparr>) = Some (Inr Finished, w) \<longrightarrow>
      pull_n n w = Some (replicate n (Inr Finished), w))
   \<and> (\<forall>g w n. Iter_next ((AsyncIter_take limit this)\<lparr>inner := g\<rparr>) = Some (Inr Finished, w) \<longrightarrow>
      pull_n n w = Some (replicate n (Inr Finished), w))
   \<and> (\<forall>g w n. Iter_next ((AsyncIter_skip items this)\<lparr>inner := g\<rparr>) = Some (Inr Finished, w) \<longrightarrow>
      pull_n n w = Some (replicate n (Inr Finished), w))
   \<and> pull_n 3 (source (\<lambda>n. if n = 1 then Inr Finished else Inr (Yielded n)) :: (nat, 'e, nat) Iter) =
       Some ([Inr (Yielded 0), Inr Finished, Inr (Yielded 2)],
             (source (\<lambda>n. if n = 1 then Inr Finished else Inr (Yielded n)))\<lparr>inner := 3\<rparr>)
   \<and> AsyncIter_next ((source (\<lambda>n. if n = 1 then Inr Finished else Inr (Yielded n))
         :: (nat, 'e, nat) Iter)\<lparr>inner := 2\<rparr>) =
       Some (Inr (Yielded 2), (source (\<lambda>n. if n = 1 then Inr Finished else Inr (Yielded n)))\<lparr>inner := 3\<rparr>)"
proof -
  have raw: "pull_n 3 (source (\<lambda>n. if n = 1 then Inr Finished else Inr (Yielded n)) :: (nat, 'e, nat) Iter) =
       Some ([Inr (Yielded 0), Inr Finished, Inr (Yielded 2)],
             (source (\<lambda>n. if n = 1 then Inr Finished else Inr (Yielded n)))\<lparr>inner := 3\<rparr>)"
    by (simp add: eval_nat_numeral Iter_next_def source_def)
  have araw: "AsyncIter_next ((source (\<lambda>n. if n = 1 then Inr Finished else Inr (Yielded n))
         :: (nat, 'e, nat) Iter)\<lparr>inner := 2\<rparr>) =
       Some (Inr (Yielded 2), (source (\<lambda>n. if n = 1 then Inr Finished else Inr (Yielded n)))\<lparr>inner := 3\<rparr>)"
    by (simp add: AsyncIter_next_def source_def)
  have loop: "\<forall>g w n. Iter_next ((loop_generator body l0 it)\<lparr>inner := g\<rparr>) = Some (Inr Finished, w) \<longrightarrow>
      pull_n n w = Some (replicate n (Inr Finished), w)" for body l0 it
    by (intro allI impI) (erule loop_latch[OF _ stops_Finished])
  have chain: "\<forall>g w n. Iter_next ((Iter_chain others this)\<lparr>inner := g\<rparr>) = Some (Inr Finished, w) \<longrightarrow>
      pull_n n w = Some (replicate n (Inr Finished), w)"
    by (intro allI impI) (erule chain_latch[OF _ stops_Finished])
  have achain: "\<forall>g w n. Iter_next ((AsyncIter_chain others this)\<lparr>inner := g\<rparr>) = Some (Inr Finished, w) \<longrightarrow>
      pull_n n w = Some (replicate n (Inr Finished), w)"
    by (intro allI impI) (erule async_chain_latch[OF _ stops_Finished])
  have zip: "\<forall>g w n. Iter_next ((Iter_zip right this)\<lparr>inner := g\<rparr>) = Some (Inr Finished, w) \<longrightarrow>
      pull_n n w = Some (replicate n (Inr Finished), w)"
    by (intro allI impI) (erule zip_latch[OF _ stops_Finished])
  have azip: "\<forall>g w n. Iter_next ((AsyncIter_zip right this)\<lparr>inner := g\<rparr>) = Some (Inr Finished, w) \<longrightarrow>
      pull_n n w = Some (replicate n (Inr Finished), w)"
    by (intro allI impI) (erule async_zip_latch[OF _ stops_Finished])
  have flat: "\<forall>g w n. Iter_next ((Iter_flat nested)\<lparr>inner := g\<rparr>) = Some (Inr Finished, w) \<longrightarrow>
      pull_n n w = Some (replicate n (Inr Finished), w)"
    by (intro allI impI) (erule flat_latch[OF _ stops_Finished])
  have rep: "\<forall>g w n. Iter_next ((repeatWith generate)\<lparr>inner := g\<rparr>) = Some (Inr Finished, w) \<longrightarrow>
      pull_n n w = Some (replicate n (Inr Finished), w)"
    by (intro allI impI) (erule repeatWith_latch[OF _ stops_Finished])
  show ?thesis
    unfolding Iter_filter_def Iter_filterMap_def Iter_map_def Iter_enumerate_def Iter_take_def
      Iter_skip_def AsyncIter_filter_def AsyncIter_filterSync_def AsyncIter_filterMap_def
      AsyncIter_filterMapSync_def AsyncIter_map_def AsyncIter_mapSync_def AsyncIter_enumerate_def
      AsyncIter_take_def AsyncIter_skip_def async_loop_generator_eq
    by (intro conjI loop chain achain zip azip flat rep raw araw)
qed

theorem combinator_wrappers_stay_exhausted_witness:
  "Iter_next ((Iter_filter (\<lambda>x. Inr True)
       (source (\<lambda>n. if n = 1 then Inr Finished else Inr (Yielded n)) :: (nat, unit, nat) Iter))
         \<lparr>inner := SuspendedYield ()
            ((source (\<lambda>n. if n = 1 then Inr Finished else Inr (Yielded n)))\<lparr>inner := 1\<rparr>)\<rparr>) =
     Some (Inr Finished,
           (Iter_filter (\<lambda>x. Inr True) (source (\<lambda>n. if n = 1 then Inr Finished else Inr (Yielded n))))
             \<lparr>inner := Completed ((source (\<lambda>n. if n = 1 then Inr Finished else Inr (Yielded n)))\<lparr>inner := 2\<rparr>)\<rparr>)
   \<and> pull_n 2 ((Iter_filter (\<lambda>x. Inr True)
       (source (\<lambda>n. if n = 1 then Inr Finished else Inr (Yielded n)) :: (nat, unit, nat) Iter))
         \<lparr>inner := Completed ((source (\<lambda>n. if n = 1 then Inr Finished else Inr (Yielded n)))\<lparr>inner := 2\<rparr>)\<rparr>) =
     Some ([Inr Finished, Inr Finished],
           (Iter_filter (\<lambda>x. Inr True) (source (\<lambda>n. if n = 1 then Inr Finished else Inr (Yielded n))))
             \<lparr>inner := Completed ((source (\<lambda>n. if n = 1 then Inr Finished else Inr (Yielded n)))\<lparr>inner := 2\<rparr>)\<rparr>)"
proof -
  have n: "Iter_next ((Iter_filter (\<lambda>x. Inr True)
       (source (\<lambda>n. if n = 1 then Inr Finished else Inr (Yielded n)) :: (nat, unit, nat) Iter))
         \<lparr>inner := SuspendedYield ()
            ((source (\<lambda>n. if n = 1 then Inr Finished else Inr (Yielded n)))\<lparr>inner := 1\<rparr>)\<rparr>) =
     Some (Inr Finished,
           (Iter_filter (\<lambda>x. Inr True) (source (\<lambda>n. if n = 1 then Inr Finished else Inr (Yielded n))))
             \<lparr>inner := Completed ((source (\<lambda>n. if n = 1 then Inr Finished else Inr (Yielded n)))\<lparr>inner := 2\<rparr>)\<rparr>)"
    by (simp add: Iter_filter_def loop_generator_def Iter_next_def generator_next_def for_of.simps
        source_def eval_nat_numeral)
  from combinator_wrappers_stay_exhausted[THEN conjunct1, rule_format, OF n, of 2] n
  show ?thesis
    by (simp add: eval_nat_numeral)
qed



end
